theory Spec2Isabelle
  imports Main "HOL-Library.Word"
begin

section \<open>The voice session controller\<close>

text \<open>
  The repository holds two variants of the browser-side controller. The later one (the
  script that follows the project description in \<^verbatim>\<open>src/README.md\<close>) has the text
  input, the pending-text slot and the debounce timer; the earlier one
  (\<^verbatim>\<open>src/frontend/voice.js\<close>) has none of them. Both are embedded here: the later one in
  full, the earlier one where it differs (its \<^verbatim>\<open>message\<close> handler).

  The module-level variables of the script are the fields of one record. Everything the
  script does to the outside (the render layer, the permission API, the backend, the
  transport object, the console) is appended to a chronological log, so that a property
  such as "nothing was sent" is a property of the log. Timers are entries of an explicit
  list of live timers; a timer fires when the environment delivers \<open>TimerFire\<close> for its
  handle, and \<^verbatim>\<open>clearTimeout\<close> removes the entry.

  An \<^verbatim>\<open>async\<close> handler is embedded as the function that runs it to its end, with the
  results of the operations it awaits given by the environment as part of the event. A
  run so has no event between the parts of one handler, while in the browser events of
  the transport can be handled at every \<^verbatim>\<open>await\<close>. The theorems about one handler say
  what that handler does, from its synchronous head on; none of them says that
  something cannot happen between the test at the head of a handler and what the
  handler does after an \<^verbatim>\<open>await\<close>.
\<close>

subsection \<open>Data\<close>

datatype ui_state =
  Idle | RequestingMic | MicDenied | Connecting | Listening
  | UserSpeaking | AgentSpeaking | CallEnded | CallError

datatype perm = Granted | Denied | Prompt

text \<open>\<^verbatim>\<open>navigator.permissions.query\<close> resolves to a state or throws.\<close>

datatype query_result = QueryState perm | QueryThrows

text \<open>
  The pre-registration request either fails (network error, or a body that is not
  JSON) or yields an object whose \<^verbatim>\<open>token\<close> field is a string or is missing.
\<close>

datatype fetch_result = FetchThrows | FetchJson "string option"

text \<open>
  What the user types is a JavaScript string: a sequence of UTF-16 code units. The
  identity, the token and the fields of a message are only compared and tested for
  emptiness, and are kept as plain strings.
\<close>

type_synonym utf16 = "16 word list"

text \<open>The two callbacks the script passes to \<^verbatim>\<open>setTimeout\<close>.\<close>

datatype timer_action = DebounceListening | FlushText utf16

datatype msg = Msg (msg_type: string) (msg_role: string) (msg_status: string)

datatype effect =
  Applied ui_state
  | RandomUUID
  | PermissionQuery
  | GetUserMedia
  | Fetch string
  | Warn
  | ConsoleError
  | NewVapi nat
  | VapiStart nat string "string option"
  | VapiStop nat
  | VapiSend nat utf16

record world =
  vapi :: "nat option"
  isCallActive :: bool
  pendingText :: "utf16 option"
  agentSpeakingTimer :: "nat option"
  ui :: ui_state
  localStorage :: "string \<rightharpoonup> string"
  timers :: "(nat \<times> nat \<times> timer_action) list"
  next_timer :: nat
  vapi_count :: nat
  log :: "effect list"

text \<open>What the environment answers during one start sequence.\<close>

record start_env =
  uuid :: string
  fetch :: fetch_result
  ctor_ok :: bool
  start_ok :: bool

record click_env =
  query :: query_result
  media_ok :: bool
  senv :: start_env

datatype event =
  MicClick click_env
  | TextSend utf16 start_env
  | CallStart
  | CallEnd
  | SpeechStart
  | SpeechEnd
  | Message msg
  | VapiError
  | TimerFire nat

subsection \<open>Helpers of the embedding\<close>

definition emit :: "effect \<Rightarrow> world \<Rightarrow> world" where
  "emit e w = w\<lparr>log := log w @ [e]\<rparr>"

text \<open>
  JavaScript truthiness of a value that is a string or \<^verbatim>\<open>null\<close>/\<^verbatim>\<open>undefined\<close>:
  the empty string is falsy. Timer handles are positive integers in a browser, so a
  stored handle is always truthy and \<open>Some\<close> stands for it.
\<close>

fun truthy :: "'a list option \<Rightarrow> bool" where
  "truthy None = False"
| "truthy (Some s) = (s \<noteq> [])"

text \<open>
  \<^verbatim>\<open>String.prototype.trim\<close> removes white space and line terminators from both ends.
  They are the code units U+0009 to U+000D, U+0020, U+00A0, U+1680, U+2000 to U+200A,
  U+2028, U+2029, U+202F, U+205F, U+3000 and U+FEFF.
\<close>

definition is_ws :: "16 word \<Rightarrow> bool" where
  "is_ws c =
     (c \<in> set [0x0009, 0x000A, 0x000B, 0x000C, 0x000D, 0x0020, 0x00A0, 0x1680,
                0x2028, 0x2029, 0x202F, 0x205F, 0x3000, 0xFEFF]
      \<or> 0x2000 \<le> c \<and> c \<le> 0x200A)"

definition trim :: "utf16 \<Rightarrow> utf16" where
  "trim s = rev (dropWhile is_ws (rev (dropWhile is_ws s)))"

definition setTimeout :: "timer_action \<Rightarrow> nat \<Rightarrow> world \<Rightarrow> nat \<times> world" where
  "setTimeout a d w =
     (next_timer w,
      w\<lparr>timers := timers w @ [(next_timer w, d, a)], next_timer := Suc (next_timer w)\<rparr>)"

definition clearTimeout :: "nat \<Rightarrow> world \<Rightarrow> world" where
  "clearTimeout h w = w\<lparr>timers := filter (\<lambda>t. fst t \<noteq> h) (timers w)\<rparr>"

definition live :: "nat \<Rightarrow> world \<Rightarrow> bool" where
  "live h w = (h \<in> set (map fst (timers w)))"

subsection \<open>Identity\<close>

definition getOrCreateUserId :: "string \<Rightarrow> world \<Rightarrow> string \<times> world" where
  "getOrCreateUserId fresh w =
     (if truthy (localStorage w ''calendarUserId'')
      then (the (localStorage w ''calendarUserId''), w)
      else (fresh,
            (emit RandomUUID w)\<lparr>localStorage := (localStorage w)(''calendarUserId'' \<mapsto> fresh)\<rparr>))"

subsection \<open>The state machine\<close>

text \<open>
  \<^verbatim>\<open>applyState\<close> rewrites the whole view from the state name, and in the two terminal
  states it also clears \<^verbatim>\<open>isCallActive\<close>. The view is a function of the name alone, so
  the name is what is recorded.
\<close>

definition applyState :: "ui_state \<Rightarrow> world \<Rightarrow> world" where
  "applyState st w =
     (let w1 = emit (Applied st) (w\<lparr>ui := st\<rparr>)
      in if st = CallEnded \<or> st = CallError then w1\<lparr>isCallActive := False\<rparr> else w1)"

definition getMicPermissionState :: "query_result \<Rightarrow> perm" where
  "getMicPermissionState r = (case r of QueryState p \<Rightarrow> p | QueryThrows \<Rightarrow> Prompt)"

definition sendTextToVapi :: "utf16 \<Rightarrow> world \<Rightarrow> world" where
  "sendTextToVapi text w =
     (case vapi w of
        None \<Rightarrow> w
      | Some v \<Rightarrow> if \<not> isCallActive w then w else emit (VapiSend v text) w)"

definition start_failed :: "world \<Rightarrow> world" where
  "start_failed w =
     applyState CallError ((emit ConsoleError w)\<lparr>isCallActive := False, vapi := None\<rparr>)"

definition startCall :: "start_env \<Rightarrow> world \<Rightarrow> world" where
  "startCall env w =
     (let w1 = applyState Connecting w;
          (userId, w2) = getOrCreateUserId (uuid env) w1;
          w3 = emit (Fetch userId) w2;
          (sessionToken, w4) =
             (case fetch env of
                FetchThrows \<Rightarrow> (None, emit Warn w3)
              | FetchJson tok \<Rightarrow> (tok, w3))
      in if \<not> ctor_ok env then start_failed w4
         else
           let v = vapi_count w4;
               w5 = emit (NewVapi v) (w4\<lparr>vapi := Some v, vapi_count := Suc v\<rparr>);
               w6 = emit (VapiStart v userId (if truthy sessionToken then sessionToken else None)) w5
           in if \<not> start_ok env then start_failed w6 else w6)"

definition stopCall :: "world \<Rightarrow> world" where
  "stopCall w = (case vapi w of None \<Rightarrow> w | Some v \<Rightarrow> emit (VapiStop v) w)"

definition handleMicClick :: "click_env \<Rightarrow> world \<Rightarrow> world" where
  "handleMicClick env w =
     (if isCallActive w then stopCall w
      else
        let w1 = applyState RequestingMic w;
            w2 = emit PermissionQuery w1;
            permState = getMicPermissionState (query env)
        in if permState = Denied then applyState MicDenied w2
           else if permState = Prompt then
             (let w3 = emit GetUserMedia w2
              in if \<not> media_ok env then applyState MicDenied w3
                 else startCall (senv env) w3)
           else startCall (senv env) w2)"

definition handleTextSend :: "utf16 \<Rightarrow> start_env \<Rightarrow> world \<Rightarrow> world" where
  "handleTextSend raw env w =
     (let text = trim raw
      in if text = [] then w
         else if isCallActive w then sendTextToVapi text w
         else startCall env (w\<lparr>pendingText := Some text\<rparr>))"

subsection \<open>The transport's event handlers\<close>

definition on_call_start :: "world \<Rightarrow> world" where
  "on_call_start w =
     (let w1 = applyState Listening (w\<lparr>isCallActive := True\<rparr>)
      in if truthy (pendingText w1)
         then snd (setTimeout (FlushText (the (pendingText w1))) 600 (w1\<lparr>pendingText := None\<rparr>))
         else w1)"

definition clear_debounce :: "world \<Rightarrow> world" where
  "clear_debounce w =
     (case agentSpeakingTimer w of
        None \<Rightarrow> w
      | Some h \<Rightarrow> (clearTimeout h w)\<lparr>agentSpeakingTimer := None\<rparr>)"

definition on_call_end :: "world \<Rightarrow> world" where
  "on_call_end w =
     applyState CallEnded (clear_debounce (w\<lparr>isCallActive := False, vapi := None\<rparr>))"

definition on_speech_start :: "world \<Rightarrow> world" where
  "on_speech_start w = (if isCallActive w then applyState UserSpeaking w else w)"

definition on_speech_end :: "world \<Rightarrow> world" where
  "on_speech_end w = (if isCallActive w then applyState Listening w else w)"

definition on_message :: "msg \<Rightarrow> world \<Rightarrow> world" where
  "on_message m w =
     (if msg_type m = ''speech-update'' \<and> isCallActive w \<and> msg_role m = ''assistant''
      then
        if msg_status m = ''started'' then applyState AgentSpeaking (clear_debounce w)
        else
          (let (h, w1) = setTimeout DebounceListening 800 w
           in w1\<lparr>agentSpeakingTimer := Some h\<rparr>)
      else w)"

definition on_error :: "world \<Rightarrow> world" where
  "on_error w =
     applyState CallError ((emit ConsoleError w)\<lparr>isCallActive := False, vapi := None\<rparr>)"

definition run_timer :: "timer_action \<Rightarrow> world \<Rightarrow> world" where
  "run_timer a w =
     (case a of
        DebounceListening \<Rightarrow>
          (let w1 = w\<lparr>agentSpeakingTimer := None\<rparr>
           in if isCallActive w1 then applyState Listening w1 else w1)
      | FlushText t \<Rightarrow> sendTextToVapi t w)"

definition fire :: "nat \<Rightarrow> world \<Rightarrow> world" where
  "fire h w =
     (case find (\<lambda>t. fst t = h) (timers w) of
        None \<Rightarrow> w
      | Some t \<Rightarrow> run_timer (snd (snd t)) (clearTimeout h w))"

text \<open>The \<^verbatim>\<open>message\<close> handler of the earlier variant: no timer, the view follows at once.\<close>

definition on_message_basic :: "msg \<Rightarrow> world \<Rightarrow> world" where
  "on_message_basic m w =
     (if msg_type m = ''speech-update'' \<and> isCallActive w \<and> msg_role m = ''assistant''
      then applyState (if msg_status m = ''started'' then AgentSpeaking else Listening) w
      else w)"

subsection \<open>Runs\<close>

fun step :: "event \<Rightarrow> world \<Rightarrow> world" where
  "step (MicClick env) w = handleMicClick env w"
| "step (TextSend raw env) w = handleTextSend raw env w"
| "step CallStart w = on_call_start w"
| "step CallEnd w = on_call_end w"
| "step SpeechStart w = on_speech_start w"
| "step SpeechEnd w = on_speech_end w"
| "step (Message m) w = on_message m w"
| "step VapiError w = on_error w"
| "step (TimerFire h) w = fire h w"

fun run :: "world \<Rightarrow> event list \<Rightarrow> world" where
  "run w [] = w"
| "run w (e # es) = run (step e w) es"

text \<open>
  The page after loading: the variables as declared, \<^verbatim>\<open>applyState('idle')\<close> done, and
  the identity resolved once by the authorisation guard.
\<close>

definition boot :: "(string \<rightharpoonup> string) \<Rightarrow> string \<Rightarrow> world" where
  "boot store fresh =
     snd (getOrCreateUserId fresh
       (applyState Idle
          \<lparr>vapi = None, isCallActive = False, pendingText = None, agentSpeakingTimer = None,
           ui = Idle, localStorage = store, timers = [], next_timer = 1, vapi_count = 0,
           log = []\<rparr>))"

subsection \<open>Which user events can arrive\<close>

text \<open>
  \<^verbatim>\<open>applyState\<close> also decides which controls can deliver an event: it disables the
  microphone button in requesting-mic and connecting, shows the permission card (with
  the retry button) only in mic-denied, shows the text section in mic-denied and in the
  three in-call states, and disables the text input while the agent speaks. A run is
  \<open>accepted\<close> when every click and every submission in it comes from a control that is
  enabled and shown at that moment; events of the transport and of timers are not
  restricted.
\<close>

definition micBtn_disabled :: "ui_state \<Rightarrow> bool" where
  "micBtn_disabled st = (st = RequestingMic \<or> st = Connecting)"

definition permCard_shown :: "ui_state \<Rightarrow> bool" where
  "permCard_shown st = (st = MicDenied)"

definition textSection_shown :: "ui_state \<Rightarrow> bool" where
  "textSection_shown st = (st \<in> {MicDenied, Listening, UserSpeaking, AgentSpeaking})"

definition textInput_disabled :: "ui_state \<Rightarrow> bool" where
  "textInput_disabled st = (st = AgentSpeaking)"

fun accepts :: "world \<Rightarrow> event \<Rightarrow> bool" where
  "accepts w (MicClick env) = (\<not> micBtn_disabled (ui w) \<or> permCard_shown (ui w))"
| "accepts w (TextSend raw env) = (textSection_shown (ui w) \<and> \<not> textInput_disabled (ui w))"
| "accepts w e = True"

fun accepted :: "world \<Rightarrow> event list \<Rightarrow> bool" where
  "accepted w [] = True"
| "accepted w (e # es) = (accepts w e \<and> accepted (step e w) es)"

subsection \<open>Notions used in the statements\<close>

text \<open>
  \<open>since w w'\<close> is what was appended to the log between two worlds of one run.
  \<open>wf\<close> says that every handle in use is below the next handle to be given out, which
  holds in every world reachable from a loaded page; \<open>in_call\<close> says that the three
  in-call views are shown only while \<^verbatim>\<open>isCallActive\<close> is set. \<open>budget\<close> counts what has
  been handed to the transport together with what may still be handed to it.
  \<open>pending_flush h t\<close> says that the settle timer \<open>h\<close> carrying \<open>t\<close> is still to fire.
\<close>

definition since :: "world \<Rightarrow> world \<Rightarrow> effect list" where
  "since w w' = drop (length (log w)) (log w')"

definition userId_of :: "string \<Rightarrow> world \<Rightarrow> string" where
  "userId_of fresh w = fst (getOrCreateUserId fresh w)"

definition for_assistant :: "msg \<Rightarrow> world \<Rightarrow> bool" where
  "for_assistant m w =
     (msg_type m = ''speech-update'' \<and> isCallActive w \<and> msg_role m = ''assistant'')"

fun is_send :: "effect \<Rightarrow> bool" where
  "is_send (VapiSend v t) = True"
| "is_send e = False"

fun is_text :: "event \<Rightarrow> bool" where
  "is_text (TextSend raw env) = True"
| "is_text e = False"

definition wf :: "world \<Rightarrow> bool" where
  "wf w =
     (list_all (\<lambda>t. fst t < next_timer w) (timers w)
      \<and> (case agentSpeakingTimer w of None \<Rightarrow> True | Some h \<Rightarrow> h < next_timer w))"

definition in_call :: "world \<Rightarrow> bool" where
  "in_call w = (ui w \<in> {Listening, UserSpeaking, AgentSpeaking} \<longrightarrow> isCallActive w)"

fun is_flush :: "nat \<times> nat \<times> timer_action \<Rightarrow> bool" where
  "is_flush (h, d, FlushText t) = True"
| "is_flush (h, d, DebounceListening) = False"

fun is_submit :: "event \<Rightarrow> bool" where
  "is_submit (TextSend raw env) = (trim raw \<noteq> [])"
| "is_submit e = False"

definition budget :: "world \<Rightarrow> nat" where
  "budget w = length (filter is_send (log w)) + length (filter is_flush (timers w))
     + (if truthy (pendingText w) then 1 else 0)"

definition pending_flush :: "nat \<Rightarrow> utf16 \<Rightarrow> world \<Rightarrow> bool" where
  "pending_flush h t w =
     (find (\<lambda>x. fst x = h) (timers w) = Some (h, 600, FlushText t)
      \<and> h < next_timer w \<and> agentSpeakingTimer w \<noteq> Some h)"

text \<open>
  The handlers of the transport are closures, registered anew on every session object,
  that read and write the variables of the page; nothing in them refers to the object
  that emitted the event. To say which sessions are live, a run can be annotated: each
  event comes with the number of the session object that emitted it, or with \<open>None\<close>
  when it comes from the user or from a timer. A session is live from the step in which
  its start request is issued (and not rejected) until it has emitted
  \<^verbatim>\<open>call-end\<close> or \<^verbatim>\<open>error\<close>. The controller sees only the
  event.
\<close>

fun terminal :: "event \<Rightarrow> bool" where
  "terminal CallEnd = True"
| "terminal VapiError = True"
| "terminal e = False"

fun started_by :: "effect \<Rightarrow> nat list" where
  "started_by (VapiStart k u t) = [k]"
| "started_by e = []"

definition opened :: "world \<Rightarrow> event \<Rightarrow> nat list" where
  "opened w e =
     (if Applied CallError \<in> set (since w (step e w)) then []
      else concat (map started_by (since w (step e w))))"

fun live_sessions :: "world \<Rightarrow> nat list \<Rightarrow> (nat option \<times> event) list \<Rightarrow> nat list" where
  "live_sessions w ks [] = ks"
| "live_sessions w ks ((src, e) # es) =
     live_sessions (step e w)
       ((case src of
           None \<Rightarrow> ks
         | Some k \<Rightarrow> if terminal e then removeAll k ks else ks) @ opened w e)
       es"

fun is_control :: "effect \<Rightarrow> bool" where
  "is_control (NewVapi k) = True"
| "is_control (VapiStart k u t) = True"
| "is_control (VapiStop k) = True"
| "is_control e = False"

subsection \<open>Sample inputs\<close>

text \<open>
  Concrete pages and environments at which the theorems below are instantiated: a page
  loaded with an empty store, environments in which the start sequence succeeds or
  fails or the permission is denied, a text with and without white space around it, the
  two speech-update messages of the assistant, a page on which the microphone was
  denied (where the text section is shown), and a page that is in a call.
\<close>

definition fresh_page :: world where
  "fresh_page = boot Map.empty ''u-0''"

definition first_visit :: world where
  "first_visit = fresh_page\<lparr>localStorage := Map.empty\<rparr>"

definition ok_start :: start_env where
  "ok_start = \<lparr>uuid = ''u-1'', fetch = FetchJson (Some ''tok''), ctor_ok = True, start_ok = True\<rparr>"

definition bad_start :: start_env where
  "bad_start = \<lparr>uuid = ''u-1'', fetch = FetchThrows, ctor_ok = True, start_ok = False\<rparr>"

definition ok_click :: click_env where
  "ok_click = \<lparr>query = QueryState Granted, media_ok = True, senv = ok_start\<rparr>"

definition denied_click :: click_env where
  "denied_click = \<lparr>query = QueryState Denied, media_ok = False, senv = ok_start\<rparr>"

definition hi :: utf16 where
  "hi = [0x0068, 0x0069]"

definition padded_hi :: utf16 where
  "padded_hi = [0x0020, 0x00A0, 0x0068, 0x0069, 0x3000, 0x000A]"

definition stopped_msg :: msg where
  "stopped_msg = Msg ''speech-update'' ''assistant'' ''stopped''"

definition started_msg :: msg where
  "started_msg = Msg ''speech-update'' ''assistant'' ''started''"

definition denied_page :: world where
  "denied_page = run fresh_page [MicClick denied_click]"

definition in_listening :: world where
  "in_listening = run fresh_page [MicClick ok_click, CallStart]"

definition speaking :: world where
  "speaking = run fresh_page [MicClick ok_click, CallStart, Message started_msg]"

section \<open>What each handler changes\<close>

text \<open>
  One lemma per function of the script: what it appends to the log and what it does to
  each variable. The later proofs use these and never unfold a handler again.
\<close>

lemma since_append: "log w' = log w @ xs \<Longrightarrow> since w w' = xs"
  by (simp add: since_def)

lemma since_self: "since w w = []"
  by (simp add: since_def)

lemma emit_fields:
  "log (emit e w) = log w @ [e]" "ui (emit e w) = ui w" "vapi (emit e w) = vapi w"
  "isCallActive (emit e w) = isCallActive w" "pendingText (emit e w) = pendingText w"
  "agentSpeakingTimer (emit e w) = agentSpeakingTimer w" "timers (emit e w) = timers w"
  "next_timer (emit e w) = next_timer w" "vapi_count (emit e w) = vapi_count w"
  "localStorage (emit e w) = localStorage w"
  by (simp_all add: emit_def)

lemma applyState_fields:
  "log (applyState st w) = log w @ [Applied st]" "ui (applyState st w) = st"
  "vapi (applyState st w) = vapi w"
  "isCallActive (applyState st w) = (isCallActive w \<and> st \<noteq> CallEnded \<and> st \<noteq> CallError)"
  "pendingText (applyState st w) = pendingText w"
  "agentSpeakingTimer (applyState st w) = agentSpeakingTimer w"
  "timers (applyState st w) = timers w" "next_timer (applyState st w) = next_timer w"
  "vapi_count (applyState st w) = vapi_count w" "localStorage (applyState st w) = localStorage w"
  by (simp_all add: applyState_def emit_def Let_def)

lemma getOrCreateUserId_fields:
  "log (snd (getOrCreateUserId f w)) =
     log w @ (if truthy (localStorage w ''calendarUserId'') then [] else [RandomUUID])"
  "ui (snd (getOrCreateUserId f w)) = ui w" "vapi (snd (getOrCreateUserId f w)) = vapi w"
  "isCallActive (snd (getOrCreateUserId f w)) = isCallActive w"
  "pendingText (snd (getOrCreateUserId f w)) = pendingText w"
  "agentSpeakingTimer (snd (getOrCreateUserId f w)) = agentSpeakingTimer w"
  "timers (snd (getOrCreateUserId f w)) = timers w"
  "next_timer (snd (getOrCreateUserId f w)) = next_timer w"
  "vapi_count (snd (getOrCreateUserId f w)) = vapi_count w"
  by (simp_all add: getOrCreateUserId_def emit_def)

lemma start_failed_fields:
  "log (start_failed w) = log w @ [ConsoleError, Applied CallError]" "ui (start_failed w) = CallError"
  "vapi (start_failed w) = None" "isCallActive (start_failed w) = False"
  "pendingText (start_failed w) = pendingText w"
  "agentSpeakingTimer (start_failed w) = agentSpeakingTimer w"
  "timers (start_failed w) = timers w" "next_timer (start_failed w) = next_timer w"
  "vapi_count (start_failed w) = vapi_count w" "localStorage (start_failed w) = localStorage w"
  by (simp_all add: start_failed_def applyState_fields emit_fields)

lemmas prim_fields = emit_fields applyState_fields getOrCreateUserId_fields start_failed_fields

lemma startCall_log:
  "log (startCall env w) = log w @
     Applied Connecting
     # (if truthy (localStorage w ''calendarUserId'') then [] else [RandomUUID])
     @ Fetch (userId_of (uuid env) w)
     # (if fetch env = FetchThrows then [Warn] else [])
     @ (if ctor_ok env
        then NewVapi (vapi_count w)
             # VapiStart (vapi_count w) (userId_of (uuid env) w)
                 (case fetch env of FetchThrows \<Rightarrow> None
                  | FetchJson tok \<Rightarrow> if truthy tok then tok else None)
             # (if start_ok env then [] else [ConsoleError, Applied CallError])
        else [ConsoleError, Applied CallError])"
  by (cases "fetch env")
     (simp_all add: startCall_def Let_def split_beta prim_fields userId_of_def
        getOrCreateUserId_def applyState_def emit_def)

lemma startCall_fields:
  "ui (startCall env w) = (if ctor_ok env \<and> start_ok env then Connecting else CallError)"
  "vapi (startCall env w) = (if ctor_ok env \<and> start_ok env then Some (vapi_count w) else None)"
  "isCallActive (startCall env w) = (isCallActive w \<and> ctor_ok env \<and> start_ok env)"
  "pendingText (startCall env w) = pendingText w"
  "agentSpeakingTimer (startCall env w) = agentSpeakingTimer w"
  "timers (startCall env w) = timers w" "next_timer (startCall env w) = next_timer w"
  "vapi_count (startCall env w) = (if ctor_ok env then Suc (vapi_count w) else vapi_count w)"
  by (cases "fetch env"; simp add: startCall_def Let_def split_beta prim_fields)+

lemma stopCall_fields:
  "log (stopCall w) = log w @ (case vapi w of None \<Rightarrow> [] | Some v \<Rightarrow> [VapiStop v])"
  "ui (stopCall w) = ui w" "vapi (stopCall w) = vapi w" "isCallActive (stopCall w) = isCallActive w"
  "pendingText (stopCall w) = pendingText w" "agentSpeakingTimer (stopCall w) = agentSpeakingTimer w"
  "timers (stopCall w) = timers w" "next_timer (stopCall w) = next_timer w"
  "vapi_count (stopCall w) = vapi_count w"
  by (simp_all add: stopCall_def emit_fields split: option.splits)

lemma sendTextToVapi_fields:
  "log (sendTextToVapi t w) =
     log w @ (case vapi w of None \<Rightarrow> [] | Some v \<Rightarrow> if isCallActive w then [VapiSend v t] else [])"
  "ui (sendTextToVapi t w) = ui w" "vapi (sendTextToVapi t w) = vapi w"
  "isCallActive (sendTextToVapi t w) = isCallActive w"
  "pendingText (sendTextToVapi t w) = pendingText w"
  "agentSpeakingTimer (sendTextToVapi t w) = agentSpeakingTimer w"
  "timers (sendTextToVapi t w) = timers w" "next_timer (sendTextToVapi t w) = next_timer w"
  "vapi_count (sendTextToVapi t w) = vapi_count w"
  by (simp_all add: sendTextToVapi_def emit_fields split: option.splits)

lemma handleMicClick_log:
  "log (handleMicClick env w) = log w @
     (if isCallActive w then (case vapi w of None \<Rightarrow> [] | Some v \<Rightarrow> [VapiStop v])
      else Applied RequestingMic # PermissionQuery #
        (case getMicPermissionState (query env) of
           Denied \<Rightarrow> [Applied MicDenied]
         | Prompt \<Rightarrow> GetUserMedia #
             (if media_ok env then since w (startCall (senv env) w) else [Applied MicDenied])
         | Granted \<Rightarrow> since w (startCall (senv env) w)))"
  by (cases "getMicPermissionState (query env)")
     (simp_all add: handleMicClick_def Let_def prim_fields stopCall_fields startCall_log
        since_def userId_of_def getOrCreateUserId_def)

lemma handleMicClick_ui:
  "ui (handleMicClick env w) =
     (if isCallActive w then ui w
      else if getMicPermissionState (query env) = Denied
             \<or> getMicPermissionState (query env) = Prompt \<and> \<not> media_ok env then MicDenied
      else if ctor_ok (senv env) \<and> start_ok (senv env) then Connecting else CallError)"
  by (cases "getMicPermissionState (query env)")
     (simp_all add: handleMicClick_def Let_def prim_fields stopCall_fields startCall_fields)

lemma handleMicClick_fields:
  "pendingText (handleMicClick env w) = pendingText w"
  "agentSpeakingTimer (handleMicClick env w) = agentSpeakingTimer w"
  "timers (handleMicClick env w) = timers w" "next_timer (handleMicClick env w) = next_timer w"
  "isCallActive (handleMicClick env w) = isCallActive w"
  by (cases "getMicPermissionState (query env)";
      simp add: handleMicClick_def Let_def prim_fields stopCall_fields startCall_fields)+

lemma handleTextSend_log:
  "log (handleTextSend raw env w) = log w @
     (if trim raw = [] then []
      else if isCallActive w then (case vapi w of None \<Rightarrow> [] | Some v \<Rightarrow> [VapiSend v (trim raw)])
      else since w (startCall env w))"
  by (simp add: handleTextSend_def Let_def sendTextToVapi_fields startCall_log since_def
        userId_of_def getOrCreateUserId_def split: option.splits)

lemma handleTextSend_fields:
  "ui (handleTextSend raw env w) =
     (if trim raw = [] \<or> isCallActive w then ui w
      else if ctor_ok env \<and> start_ok env then Connecting else CallError)"
  "pendingText (handleTextSend raw env w) =
     (if trim raw = [] \<or> isCallActive w then pendingText w else Some (trim raw))"
  "agentSpeakingTimer (handleTextSend raw env w) = agentSpeakingTimer w"
  "timers (handleTextSend raw env w) = timers w"
  "next_timer (handleTextSend raw env w) = next_timer w"
  "isCallActive (handleTextSend raw env w) = isCallActive w"
  by (simp_all add: handleTextSend_def Let_def sendTextToVapi_fields startCall_fields)

lemma startCall_since: "since w (startCall env w) =
     Applied Connecting
     # (if truthy (localStorage w ''calendarUserId'') then [] else [RandomUUID])
     @ Fetch (userId_of (uuid env) w)
     # (if fetch env = FetchThrows then [Warn] else [])
     @ (if ctor_ok env
        then NewVapi (vapi_count w)
             # VapiStart (vapi_count w) (userId_of (uuid env) w)
                 (case fetch env of FetchThrows \<Rightarrow> None
                  | FetchJson tok \<Rightarrow> if truthy tok then tok else None)
             # (if start_ok env then [] else [ConsoleError, Applied CallError])
        else [ConsoleError, Applied CallError])"
  by (rule since_append) (rule startCall_log)

lemma handleMicClick_since: "since w (handleMicClick env w) =
     (if isCallActive w then (case vapi w of None \<Rightarrow> [] | Some v \<Rightarrow> [VapiStop v])
      else Applied RequestingMic # PermissionQuery #
        (case getMicPermissionState (query env) of
           Denied \<Rightarrow> [Applied MicDenied]
         | Prompt \<Rightarrow> GetUserMedia #
             (if media_ok env then since w (startCall (senv env) w) else [Applied MicDenied])
         | Granted \<Rightarrow> since w (startCall (senv env) w)))"
  by (rule since_append) (rule handleMicClick_log)

lemma handleTextSend_since: "since w (handleTextSend raw env w) =
     (if trim raw = [] then []
      else if isCallActive w then (case vapi w of None \<Rightarrow> [] | Some v \<Rightarrow> [VapiSend v (trim raw)])
      else since w (startCall env w))"
  by (rule since_append) (rule handleTextSend_log)

lemma clear_debounce_fields:
  "log (clear_debounce w) = log w" "ui (clear_debounce w) = ui w"
  "vapi (clear_debounce w) = vapi w" "isCallActive (clear_debounce w) = isCallActive w"
  "pendingText (clear_debounce w) = pendingText w"
  "agentSpeakingTimer (clear_debounce w) = None"
  "timers (clear_debounce w) =
     (case agentSpeakingTimer w of None \<Rightarrow> timers w
      | Some h \<Rightarrow> filter (\<lambda>t. fst t \<noteq> h) (timers w))"
  "next_timer (clear_debounce w) = next_timer w" "vapi_count (clear_debounce w) = vapi_count w"
  by (simp_all add: clear_debounce_def clearTimeout_def split: option.splits)

lemma on_call_start_fields:
  "log (on_call_start w) = log w @ [Applied Listening]" "ui (on_call_start w) = Listening"
  "vapi (on_call_start w) = vapi w" "isCallActive (on_call_start w) = True"
  "pendingText (on_call_start w) = (if truthy (pendingText w) then None else pendingText w)"
  "agentSpeakingTimer (on_call_start w) = agentSpeakingTimer w"
  "timers (on_call_start w) = timers w @
     (if truthy (pendingText w) then [(next_timer w, 600, FlushText (the (pendingText w)))] else [])"
  "next_timer (on_call_start w) = (if truthy (pendingText w) then Suc (next_timer w) else next_timer w)"
  "vapi_count (on_call_start w) = vapi_count w"
  by (simp_all add: on_call_start_def Let_def setTimeout_def applyState_fields)

lemma on_call_end_fields:
  "log (on_call_end w) = log w @ [Applied CallEnded]" "ui (on_call_end w) = CallEnded"
  "vapi (on_call_end w) = None" "isCallActive (on_call_end w) = False"
  "pendingText (on_call_end w) = pendingText w"
  "agentSpeakingTimer (on_call_end w) = None"
  "timers (on_call_end w) =
     (case agentSpeakingTimer w of None \<Rightarrow> timers w
      | Some h \<Rightarrow> filter (\<lambda>t. fst t \<noteq> h) (timers w))"
  "next_timer (on_call_end w) = next_timer w" "vapi_count (on_call_end w) = vapi_count w"
  by (simp_all add: on_call_end_def applyState_fields clear_debounce_fields split: option.splits)

lemma on_error_fields:
  "log (on_error w) = log w @ [ConsoleError, Applied CallError]" "ui (on_error w) = CallError"
  "vapi (on_error w) = None" "isCallActive (on_error w) = False"
  "pendingText (on_error w) = pendingText w"
  "agentSpeakingTimer (on_error w) = agentSpeakingTimer w"
  "timers (on_error w) = timers w"
  "next_timer (on_error w) = next_timer w" "vapi_count (on_error w) = vapi_count w"
  by (simp_all add: on_error_def applyState_fields emit_fields)

lemma on_speech_start_fields:
  "log (on_speech_start w) = log w @ (if isCallActive w then [Applied UserSpeaking] else [])"
  "ui (on_speech_start w) = (if isCallActive w then UserSpeaking else ui w)"
  "vapi (on_speech_start w) = vapi w" "isCallActive (on_speech_start w) = isCallActive w"
  "pendingText (on_speech_start w) = pendingText w"
  "agentSpeakingTimer (on_speech_start w) = agentSpeakingTimer w"
  "timers (on_speech_start w) = timers w"
  "next_timer (on_speech_start w) = next_timer w" "vapi_count (on_speech_start w) = vapi_count w"
  by (simp_all add: on_speech_start_def applyState_fields)

lemma on_speech_end_fields:
  "log (on_speech_end w) = log w @ (if isCallActive w then [Applied Listening] else [])"
  "ui (on_speech_end w) = (if isCallActive w then Listening else ui w)"
  "vapi (on_speech_end w) = vapi w" "isCallActive (on_speech_end w) = isCallActive w"
  "pendingText (on_speech_end w) = pendingText w"
  "agentSpeakingTimer (on_speech_end w) = agentSpeakingTimer w"
  "timers (on_speech_end w) = timers w"
  "next_timer (on_speech_end w) = next_timer w" "vapi_count (on_speech_end w) = vapi_count w"
  by (simp_all add: on_speech_end_def applyState_fields)

lemma on_message_fields:
  "log (on_message m w) =
     log w @ (if for_assistant m w \<and> msg_status m = ''started'' then [Applied AgentSpeaking] else [])"
  "ui (on_message m w) =
     (if for_assistant m w \<and> msg_status m = ''started'' then AgentSpeaking else ui w)"
  "vapi (on_message m w) = vapi w" "isCallActive (on_message m w) = isCallActive w"
  "pendingText (on_message m w) = pendingText w"
  "agentSpeakingTimer (on_message m w) =
     (if for_assistant m w
      then if msg_status m = ''started'' then None else Some (next_timer w)
      else agentSpeakingTimer w)"
  "timers (on_message m w) =
     (if for_assistant m w
      then if msg_status m = ''started''
           then (case agentSpeakingTimer w of None \<Rightarrow> timers w
                 | Some h \<Rightarrow> filter (\<lambda>t. fst t \<noteq> h) (timers w))
           else timers w @ [(next_timer w, 800, DebounceListening)]
      else timers w)"
  "next_timer (on_message m w) =
     (if for_assistant m w \<and> msg_status m \<noteq> ''started'' then Suc (next_timer w) else next_timer w)"
  "vapi_count (on_message m w) = vapi_count w"
  by (simp_all add: on_message_def for_assistant_def Let_def setTimeout_def applyState_fields
        clear_debounce_fields)

lemma find_dead: "\<not> live h w \<Longrightarrow> find (\<lambda>t. fst t = h) (timers w) = None"
  by (force simp: live_def find_None_iff)

lemma fire_dead: "\<not> live h w \<Longrightarrow> fire h w = w"
  by (simp add: fire_def find_dead)

lemma filter_dead: "find (\<lambda>t. fst t = h) ts = None \<Longrightarrow> filter (\<lambda>t. fst t \<noteq> h) ts = ts"
  by (induction ts) (auto split: if_splits)

lemma fire_fields:
  "log (fire h w) = log w @
     (case find (\<lambda>t. fst t = h) (timers w) of
        None \<Rightarrow> []
      | Some t \<Rightarrow>
         (case snd (snd t) of
            DebounceListening \<Rightarrow> if isCallActive w then [Applied Listening] else []
          | FlushText x \<Rightarrow>
              (case vapi w of None \<Rightarrow> [] | Some v \<Rightarrow> if isCallActive w then [VapiSend v x] else [])))"
  "ui (fire h w) =
     (case find (\<lambda>t. fst t = h) (timers w) of
        None \<Rightarrow> ui w
      | Some t \<Rightarrow>
         (case snd (snd t) of
            DebounceListening \<Rightarrow> if isCallActive w then Listening else ui w
          | FlushText x \<Rightarrow> ui w))"
  "vapi (fire h w) = vapi w" "isCallActive (fire h w) = isCallActive w"
  "pendingText (fire h w) = pendingText w"
  "timers (fire h w) = filter (\<lambda>t. fst t \<noteq> h) (timers w)"
  "next_timer (fire h w) = next_timer w" "vapi_count (fire h w) = vapi_count w"
  by (simp_all add: fire_def run_timer_def clearTimeout_def Let_def applyState_fields
        sendTextToVapi_fields filter_dead split: option.splits timer_action.splits)

lemma fire_timer:
  "agentSpeakingTimer (fire h w) =
     (case find (\<lambda>t. fst t = h) (timers w) of
        None \<Rightarrow> agentSpeakingTimer w
      | Some t \<Rightarrow>
         (case snd (snd t) of
            DebounceListening \<Rightarrow> None
          | FlushText x \<Rightarrow> agentSpeakingTimer w))"
  by (simp add: fire_def run_timer_def clearTimeout_def Let_def applyState_fields
        sendTextToVapi_fields split: option.splits timer_action.splits)

lemmas handler_fields = stopCall_fields sendTextToVapi_fields handleMicClick_fields
  handleTextSend_fields on_call_start_fields on_call_end_fields on_error_fields
  on_speech_start_fields on_speech_end_fields on_message_fields fire_fields

lemma step_log: "log (step ev w) = log w @ since w (step ev w)"
  by (cases ev)
     (simp_all add: since_def handleMicClick_log handleTextSend_log handler_fields)

lemma run_ext: "\<exists>xs. log (run w es) = log w @ xs"
proof (induction es arbitrary: w)
  case Nil
  show ?case by simp
next
  case (Cons e es)
  obtain xs where "log (run (step e w) es) = log (step e w) @ xs"
    using Cons.IH by blast
  then have "log (run w (e # es)) = log w @ (since w (step e w) @ xs)"
    using step_log [of e w] by simp
  then show ?case by blast
qed

lemma run_log: "log (run w es) = log w @ since w (run w es)"
proof -
  obtain xs where "log (run w es) = log w @ xs"
    using run_ext by blast
  then show ?thesis by (simp add: since_def)
qed

lemma since_step_run:
  "since w (run (step e w) es) = since w (step e w) @ since (step e w) (run (step e w) es)"
proof -
  obtain a where a: "log (step e w) = log w @ a"
    using step_log by blast
  obtain b where b: "log (run (step e w) es) = log (step e w) @ b"
    using run_ext by blast
  have "since w (step e w) = a" "since (step e w) (run (step e w) es) = b"
    using a b by (simp_all add: since_append)
  moreover have "since w (run (step e w) es) = a @ b"
    using a b by (simp add: since_append)
  ultimately show ?thesis by simp
qed

lemma wf_step: "wf w \<Longrightarrow> wf (step ev w)"
proof (cases ev)
  case (Message m)
  assume "wf w"
  then show ?thesis using Message
    by (auto simp: wf_def list_all_iff on_message_fields split: option.splits)
next
  case CallStart
  assume "wf w"
  then show ?thesis using CallStart
    by (auto simp: wf_def list_all_iff on_call_start_fields split: option.splits)
next
  case CallEnd
  assume "wf w"
  then show ?thesis using CallEnd
    by (auto simp: wf_def list_all_iff on_call_end_fields split: option.splits)
next
  case (TimerFire h)
  assume "wf w"
  then show ?thesis using TimerFire
    by (auto simp: wf_def list_all_iff fire_fields fire_timer split: option.splits timer_action.splits)
qed (auto simp: wf_def list_all_iff handler_fields split: option.splits)

lemma in_call_step: "in_call w \<Longrightarrow> in_call (step ev w)"
proof (cases ev)
  case (TimerFire h)
  assume "in_call w"
  then show ?thesis using TimerFire
    by (auto simp: in_call_def fire_fields split: option.splits timer_action.splits)
qed (auto simp: in_call_def handler_fields handleMicClick_ui for_assistant_def split: if_splits)

lemma boot_fields:
  "timers (boot store fresh) = []" "next_timer (boot store fresh) = 1"
  "ui (boot store fresh) = Idle" "isCallActive (boot store fresh) = False"
  "vapi (boot store fresh) = None" "pendingText (boot store fresh) = None"
  "agentSpeakingTimer (boot store fresh) = None" "vapi_count (boot store fresh) = 0"
  by (simp_all add: boot_def prim_fields)

lemma run_append: "run w (xs @ ys) = run (run w xs) ys"
  by (induction xs arbitrary: w) simp_all

lemma wf_run: "wf w \<Longrightarrow> wf (run w es)"
  by (induction es arbitrary: w) (simp_all add: wf_step)

lemma in_call_run: "in_call w \<Longrightarrow> in_call (run w es)"
  by (induction es arbitrary: w) (simp_all add: in_call_step)

lemma wf_reachable: "wf (run (boot store fresh) es)"
  by (rule wf_run) (simp add: wf_def boot_fields)

lemma in_call_reachable: "in_call (run (boot store fresh) es)"
  by (rule in_call_run) (simp add: in_call_def boot_fields)

lemma inactive_step: "\<not> isCallActive w \<Longrightarrow> CallStart \<noteq> ev \<Longrightarrow> \<not> isCallActive (step ev w)"
  by (cases ev) (simp_all add: handler_fields)

lemma inactive_run: "\<not> isCallActive w \<Longrightarrow> CallStart \<notin> set es \<Longrightarrow> \<not> isCallActive (run w es)"
  by (induction es arbitrary: w) (simp_all add: inactive_step)

lemma no_send_inactive: "\<not> isCallActive w \<Longrightarrow> filter is_send (since w (step ev w)) = []"
proof (cases ev)
  case (MicClick env)
  assume "\<not> isCallActive w"
  then show ?thesis using MicClick
    by (cases "getMicPermissionState (query env)")
       (simp_all add: handleMicClick_since startCall_since)
next
  case (TimerFire h)
  assume "\<not> isCallActive w"
  then show ?thesis using TimerFire
    by (simp add: since_def fire_fields split: option.splits timer_action.splits)
next
  case (TextSend raw env)
  assume "\<not> isCallActive w"
  then show ?thesis using TextSend
    by (simp add: handleTextSend_since startCall_since)
qed (simp_all add: since_def handler_fields)

lemma no_send_inactive_run:
  "\<not> isCallActive w \<Longrightarrow> CallStart \<notin> set es \<Longrightarrow> filter is_send (since w (run w es)) = []"
proof (induction es arbitrary: w)
  case Nil
  show ?case by (simp add: since_def)
next
  case (Cons e es)
  then have "\<not> isCallActive (step e w)" by (simp add: inactive_step)
  with Cons show ?case by (simp add: since_step_run no_send_inactive)
qed

lemma pending_step: "CallStart \<noteq> ev \<Longrightarrow> \<not> is_text ev \<Longrightarrow> pendingText (step ev w) = pendingText w"
  by (cases ev) (simp_all add: handler_fields)

lemma pending_run:
  "CallStart \<notin> set es \<Longrightarrow> \<forall>e\<in>set es. \<not> is_text e \<Longrightarrow> pendingText (run w es) = pendingText w"
  by (induction es arbitrary: w) (simp_all add: pending_step)

lemma find_snoc: "find P xs = None \<Longrightarrow> P x \<Longrightarrow> find P (xs @ [x]) = Some x"
  by (induction xs) (auto split: if_splits)

lemma find_fresh:
  "wf w \<Longrightarrow> find (\<lambda>t. fst t = next_timer w) (timers w @ [(next_timer w, d, a)]) = Some (next_timer w, d, a)"
proof -
  assume "wf w"
  then have "find (\<lambda>t. fst t = next_timer w) (timers w) = None"
    by (auto simp: wf_def list_all_iff find_None_iff)
  then show ?thesis by (simp add: find_snoc)
qed

lemma handleMicClick_vapi:
  "isCallActive w \<Longrightarrow> vapi (handleMicClick env w) = vapi w"
  "isCallActive w \<Longrightarrow> vapi_count (handleMicClick env w) = vapi_count w"
  by (simp_all add: handleMicClick_def stopCall_fields)

lemma handleTextSend_vapi:
  "isCallActive w \<Longrightarrow> vapi (handleTextSend raw env w) = vapi w"
  "isCallActive w \<Longrightarrow> vapi_count (handleTextSend raw env w) = vapi_count w"
  by (simp_all add: handleTextSend_def Let_def sendTextToVapi_fields)

lemma event_since:
  "since w (on_call_start w) = [Applied Listening]"
  "since w (on_call_end w) = [Applied CallEnded]"
  "since w (on_error w) = [ConsoleError, Applied CallError]"
  "since w (on_speech_start w) = (if isCallActive w then [Applied UserSpeaking] else [])"
  "since w (on_speech_end w) = (if isCallActive w then [Applied Listening] else [])"
  "since w (on_message m w) =
     (if for_assistant m w \<and> msg_status m = ''started'' then [Applied AgentSpeaking] else [])"
  "since w (fire h w) =
     (case find (\<lambda>t. fst t = h) (timers w) of
        None \<Rightarrow> []
      | Some t \<Rightarrow>
         (case snd (snd t) of
            DebounceListening \<Rightarrow> if isCallActive w then [Applied Listening] else []
          | FlushText x \<Rightarrow>
              (case vapi w of None \<Rightarrow> [] | Some v \<Rightarrow> if isCallActive w then [VapiSend v x] else [])))"
  by (rule since_append, simp add: handler_fields)+

lemmas handler_since = handleMicClick_since handleTextSend_since event_since

lemma filter_conj_le: "length (filter (\<lambda>x. Q x \<and> P x) xs) \<le> length (filter P xs)"
  by (induction xs) auto

lemma filter_filter_le: "length (filter P (filter Q xs)) \<le> length (filter P xs)"
  by (simp add: filter_conj_le)

lemma filter_found_less:
  "find (\<lambda>t. fst t = h) xs = Some t \<Longrightarrow> P t \<Longrightarrow>
     Suc (length (filter P (filter (\<lambda>t. fst t \<noteq> h) xs))) \<le> length (filter P xs)"
proof (induction xs)
  case Nil
  then show ?case by simp
next
  case (Cons x xs)
  show ?case
  proof (cases "fst x = h")
    case True
    then have "x = t" using Cons.prems(1) by simp
    then show ?thesis using True Cons.prems(2) filter_filter_le [of P "\<lambda>t. fst t \<noteq> h" xs]
      by simp
  next
    case False
    then show ?thesis using Cons by auto
  qed
qed

lemma sends_log: "log w' = log w @ xs \<Longrightarrow>
    length (filter is_send (log w')) = length (filter is_send (log w)) + length (filter is_send xs)"
  by simp

lemma budget_step: "budget (step ev w) \<le> budget w + (if is_submit ev then 1 else 0)"
proof (cases ev)
  case (MicClick env)
  have "filter is_send (since w (handleMicClick env w)) = []"
    by (cases "getMicPermissionState (query env)")
       (simp_all add: handleMicClick_since startCall_since split: option.splits)
  then have "filter is_send (log (handleMicClick env w)) = filter is_send (log w)"
    using step_log [of "MicClick env" w] by simp
  then show ?thesis using MicClick by (simp add: budget_def handleMicClick_fields)
next
  case (TextSend raw env)
  have "length (filter is_send (since w (handleTextSend raw env w)))
          \<le> (if trim raw \<noteq> [] \<and> isCallActive w then 1 else 0)"
    by (simp add: handleTextSend_since startCall_since split: option.splits)
  moreover have "length (filter is_send (log (handleTextSend raw env w)))
     = length (filter is_send (log w)) + length (filter is_send (since w (handleTextSend raw env w)))"
    using step_log [of "TextSend raw env" w] by simp
  ultimately show ?thesis using TextSend
    by (auto simp: budget_def handleTextSend_fields split: if_splits)
next
  case CallStart
  then show ?thesis by (simp add: budget_def on_call_start_fields)
next
  case CallEnd
  then show ?thesis
    by (simp add: budget_def on_call_end_fields filter_conj_le split: option.splits)
next
  case SpeechStart
  then show ?thesis by (simp add: budget_def on_speech_start_fields)
next
  case SpeechEnd
  then show ?thesis by (simp add: budget_def on_speech_end_fields)
next
  case (Message m)
  then show ?thesis
    by (simp add: budget_def on_message_fields filter_conj_le split: option.splits)
next
  case VapiError
  then show ?thesis by (simp add: budget_def on_error_fields)
next
  case (TimerFire h)
  show ?thesis
  proof (cases "find (\<lambda>t. fst t = h) (timers w)")
    case None
    then show ?thesis using TimerFire by (simp add: budget_def fire_fields filter_conj_le)
  next
    case (Some t)
    obtain h' d a where t: "t = (h', d, a)" by (cases t)
    show ?thesis
    proof (cases a)
      case DebounceListening
      then show ?thesis using TimerFire Some t
        by (simp add: budget_def fire_fields filter_conj_le)
    next
      case (FlushText x)
      then have "is_flush t" using t by simp
      then have "Suc (length (filter is_flush (filter (\<lambda>t. fst t \<noteq> h) (timers w))))
                   \<le> length (filter is_flush (timers w))"
        using Some by (rule filter_found_less [rotated])
      then show ?thesis using TimerFire Some t FlushText
        by (simp add: budget_def fire_fields del: filter_filter split: option.splits)
    qed
  qed
qed

lemma budget_run: "budget (run w es) \<le> budget w + length (filter is_submit es)"
proof (induction es arbitrary: w)
  case Nil
  show ?case by simp
next
  case (Cons e es)
  have "budget (run (step e w) es) \<le> budget (step e w) + length (filter is_submit es)"
    by (rule Cons.IH)
  then show ?case using budget_step [of e w] by (auto split: if_splits)
qed

lemma sends_le_submits:
  "length (filter is_send (log (run (boot store fresh) es))) \<le> length (filter is_submit es)"
proof -
  have "budget (boot store fresh) = 0"
    by (simp add: budget_def boot_fields boot_def prim_fields)
  then have "budget (run (boot store fresh) es) \<le> length (filter is_submit es)"
    using budget_run [of "boot store fresh" es] by simp
  then show ?thesis by (simp add: budget_def)
qed

lemma flush_after_start:
  assumes "wf w" and "pendingText w = Some t" and "t \<noteq> []"
  shows "since w (step CallStart w) = [Applied Listening]"
    and "pendingText (step CallStart w) = None"
    and "find (\<lambda>x. fst x = next_timer w) (timers (step CallStart w))
           = Some (next_timer w, 600, FlushText t)"
    and "since (step CallStart w) (step (TimerFire (next_timer w)) (step CallStart w))
           = (case vapi w of None \<Rightarrow> [] | Some v \<Rightarrow> [VapiSend v t])"
    and "\<not> live (next_timer w) (step (TimerFire (next_timer w)) (step CallStart w))"
proof -
  show "since w (step CallStart w) = [Applied Listening]"
    by (simp add: event_since)
  show "pendingText (step CallStart w) = None"
    using assms by (simp add: on_call_start_fields)
  show f: "find (\<lambda>x. fst x = next_timer w) (timers (step CallStart w))
           = Some (next_timer w, 600, FlushText t)"
    using assms by (simp add: on_call_start_fields find_fresh)
  show "since (step CallStart w) (step (TimerFire (next_timer w)) (step CallStart w))
           = (case vapi w of None \<Rightarrow> [] | Some v \<Rightarrow> [VapiSend v t])"
    using f by (simp add: event_since on_call_start_fields split: option.splits)
  show "\<not> live (next_timer w) (step (TimerFire (next_timer w)) (step CallStart w))"
    by (auto simp: live_def fire_fields)
qed

lemma handleTextSend_session:
  "vapi (handleTextSend raw env w) =
     (if trim raw = [] \<or> isCallActive w then vapi w
      else if ctor_ok env \<and> start_ok env then Some (vapi_count w) else None)"
  "vapi_count (handleTextSend raw env w) =
     (if trim raw = [] \<or> isCallActive w \<or> \<not> ctor_ok env then vapi_count w
      else Suc (vapi_count w))"
  by (simp_all add: handleTextSend_def Let_def sendTextToVapi_fields startCall_fields)

lemma handleMicClick_session:
  "vapi (handleMicClick env w) =
     (if isCallActive w \<or> getMicPermissionState (query env) = Denied
           \<or> getMicPermissionState (query env) = Prompt \<and> \<not> media_ok env then vapi w
      else if ctor_ok (senv env) \<and> start_ok (senv env) then Some (vapi_count w) else None)"
  "vapi_count (handleMicClick env w) =
     (if isCallActive w \<or> getMicPermissionState (query env) = Denied
           \<or> getMicPermissionState (query env) = Prompt \<and> \<not> media_ok env
           \<or> \<not> ctor_ok (senv env) then vapi_count w
      else Suc (vapi_count w))"
  by (cases "getMicPermissionState (query env)";
      simp add: handleMicClick_def Let_def prim_fields stopCall_fields startCall_fields)+

lemmas eval_simps = Let_def handleTextSend_fields handleTextSend_log handleTextSend_session
  handleMicClick_fields handleMicClick_log handleMicClick_ui handleMicClick_session
  startCall_since startCall_fields on_call_start_fields on_call_end_fields on_error_fields
  on_speech_start_fields on_speech_end_fields on_message_fields fire_fields fire_timer
  getMicPermissionState_def

lemma boot_store:
  "localStorage (boot store fresh) ''calendarUserId'' =
     (if truthy (store ''calendarUserId'') then store ''calendarUserId'' else Some fresh)"
  by (simp add: boot_def getOrCreateUserId_def applyState_fields emit_def)

lemma fresh_page_fields:
  "timers fresh_page = []" "next_timer fresh_page = 1" "ui fresh_page = Idle"
  "\<not> isCallActive fresh_page" "vapi fresh_page = None" "pendingText fresh_page = None"
  "agentSpeakingTimer fresh_page = None" "vapi_count fresh_page = 0"
  "localStorage fresh_page ''calendarUserId'' = Some ''u-0''"
  "log fresh_page = [Applied Idle, RandomUUID]"
  by (simp_all add: fresh_page_def boot_fields boot_store)
     (simp add: boot_def getOrCreateUserId_def applyState_fields emit_def)

lemma env_fields:
  "ctor_ok ok_start" "start_ok ok_start" "fetch ok_start = FetchJson (Some ''tok'')"
  "uuid ok_start = ''u-1''"
  "ctor_ok bad_start" "\<not> start_ok bad_start" "fetch bad_start = FetchThrows"
  "uuid bad_start = ''u-1''"
  "query ok_click = QueryState Granted" "senv ok_click = ok_start"
  by (simp_all add: ok_start_def bad_start_def ok_click_def)

lemma trim_hi: "trim hi = hi" "trim padded_hi = hi" "hi \<noteq> []" "trim [0x00A0] = []"
  by (simp_all add: trim_def is_ws_def hi_def padded_hi_def)

lemma denied_page_fields:
  "ui denied_page = MicDenied" "\<not> isCallActive denied_page" "timers denied_page = []"
  "next_timer denied_page = 1" "agentSpeakingTimer denied_page = None"
  "vapi denied_page = None" "vapi_count denied_page = 0" "pendingText denied_page = None"
  "localStorage denied_page ''calendarUserId'' = Some ''u-0''"
  "log denied_page = [Applied Idle, RandomUUID, Applied RequestingMic, PermissionQuery, Applied MicDenied]"
  by (simp_all add: denied_page_def denied_click_def fresh_page_fields handleMicClick_def
        getMicPermissionState_def Let_def prim_fields)

lemma for_assistant_simps:
  "for_assistant stopped_msg w = isCallActive w" "for_assistant started_msg w = isCallActive w"
  "msg_status stopped_msg \<noteq> ''started''" "msg_status started_msg = ''started''"
  by (simp_all add: for_assistant_def stopped_msg_def started_msg_def)

lemma in_listening_fields:
  "ui in_listening = Listening" "isCallActive in_listening" "timers in_listening = []"
  "next_timer in_listening = 1" "agentSpeakingTimer in_listening = None"
  "vapi in_listening = Some 0" "vapi_count in_listening = 1" "pendingText in_listening = None"
  by (simp_all add: in_listening_def fresh_page_fields env_fields eval_simps)

lemma speaking_fields:
  "ui speaking = AgentSpeaking" "isCallActive speaking" "timers speaking = []"
  "next_timer speaking = 1" "agentSpeakingTimer speaking = None" "vapi speaking = Some 0"
  by (simp_all add: speaking_def fresh_page_fields env_fields eval_simps for_assistant_simps)

lemma find_keep_snoc: "find P xs = Some y \<Longrightarrow> find P (xs @ zs) = Some y"
  by (induction xs) (auto split: if_splits)

lemma find_keep_filter:
  "a \<noteq> h \<Longrightarrow> find (\<lambda>x. fst x = h) (filter (\<lambda>x. fst x \<noteq> a) xs) = find (\<lambda>x. fst x = h) xs"
  by (induction xs) auto

lemma pending_flush_step:
  assumes "pending_flush h t w" and "ev \<noteq> TimerFire h"
  shows "pending_flush h t (step ev w)"
proof (cases ev)
  case (TimerFire h')
  then have "h' \<noteq> h" using assms(2) by simp
  then show ?thesis using assms(1) TimerFire
    by (auto simp: pending_flush_def fire_fields fire_timer find_keep_filter
          split: option.splits timer_action.splits)
next
  case (Message m)
  then show ?thesis using assms(1)
    by (auto simp: pending_flush_def on_message_fields find_keep_filter find_keep_snoc
          split: option.splits)
next
  case CallStart
  then show ?thesis using assms(1)
    by (auto simp: pending_flush_def on_call_start_fields find_keep_snoc)
next
  case CallEnd
  then show ?thesis using assms(1)
    by (auto simp: pending_flush_def on_call_end_fields find_keep_filter split: option.splits)
qed (use assms(1) in \<open>simp_all add: pending_flush_def handler_fields\<close>)

lemma pending_flush_run:
  "pending_flush h t w \<Longrightarrow> TimerFire h \<notin> set es \<Longrightarrow> pending_flush h t (run w es)"
  by (induction es arbitrary: w) (auto simp: pending_flush_step)

lemma pending_flush_start:
  assumes "wf w" and "pendingText w = Some t" and "t \<noteq> []"
  shows "pending_flush (next_timer w) t (step CallStart w)"
  using assms flush_after_start(3) [OF assms]
  by (auto simp: pending_flush_def on_call_start_fields wf_def)

lemma pending_flush_fire:
  assumes "pending_flush h t w"
  shows "since w (step (TimerFire h) w)
           = (case vapi w of None \<Rightarrow> [] | Some v \<Rightarrow> if isCallActive w then [VapiSend v t] else [])"
    and "\<not> live h (step (TimerFire h) w)"
  using assms by (auto simp: pending_flush_def event_since live_def fire_fields)

lemmas view_defs = micBtn_disabled_def permCard_shown_def textSection_shown_def
  textInput_disabled_def

lemma denied_click_fields:
  "query denied_click = QueryState Denied" "senv denied_click = ok_start"
  by (simp_all add: denied_click_def)

lemma from_denied_page:
  "run fresh_page (MicClick denied_click # es) = run denied_page es"
  "accepted fresh_page (MicClick denied_click # es) = accepted denied_page es"
  by (simp_all add: denied_page_def fresh_page_fields view_defs)

lemma store_kept:
  "localStorage (on_call_start w) = localStorage w" "localStorage (on_call_end w) = localStorage w"
  "localStorage (on_error w) = localStorage w" "localStorage (on_speech_start w) = localStorage w"
  "localStorage (on_speech_end w) = localStorage w" "localStorage (on_message m w) = localStorage w"
  "localStorage (fire h w) = localStorage w" "localStorage (stopCall w) = localStorage w"
  "localStorage (sendTextToVapi t w) = localStorage w"
  by (simp_all add: on_call_start_def on_call_end_def on_error_def on_speech_start_def
        on_speech_end_def on_message_def fire_def run_timer_def stopCall_def sendTextToVapi_def
        clear_debounce_def clearTimeout_def setTimeout_def Let_def prim_fields
        split: option.splits timer_action.splits)

lemma getOrCreateUserId_stored:
  "truthy (localStorage w ''calendarUserId'') \<Longrightarrow>
     getOrCreateUserId f w = (the (localStorage w ''calendarUserId''), w)"
  by (simp add: getOrCreateUserId_def)

lemma startCall_store:
  assumes "truthy (localStorage w ''calendarUserId'')"
  shows "localStorage (startCall env w) = localStorage w"
proof -
  have "getOrCreateUserId (uuid env) (applyState Connecting w)
          = (the (localStorage w ''calendarUserId''), applyState Connecting w)"
    using assms by (simp add: getOrCreateUserId_stored applyState_fields)
  then show ?thesis
    by (cases "fetch env") (simp_all add: startCall_def Let_def prim_fields)
qed

lemma store_started:
  assumes "truthy (localStorage w ''calendarUserId'')"
  shows "localStorage (startCall env w) = localStorage w"
    and "localStorage (handleMicClick cenv w) = localStorage w"
    and "localStorage (handleTextSend raw env w) = localStorage w"
    and "userId_of f w = the (localStorage w ''calendarUserId'')"
proof -
  show "localStorage (startCall env w) = localStorage w"
    using assms by (rule startCall_store)
  show "localStorage (handleMicClick cenv w) = localStorage w"
    using assms
    by (cases "getMicPermissionState (query cenv)")
       (simp_all add: handleMicClick_def Let_def prim_fields store_kept startCall_store)
  show "localStorage (handleTextSend raw env w) = localStorage w"
    using assms
    by (simp add: handleTextSend_def Let_def store_kept startCall_store)
  show "userId_of f w = the (localStorage w ''calendarUserId'')"
    using assms by (simp add: userId_of_def getOrCreateUserId_def)
qed

lemmas store_fields = store_kept store_started

section \<open>The properties\<close>

subsection \<open>C1: the debounce of the return to listening\<close>

text \<open>
  Claim C1, as it holds for the variant with the debounce timer. In any world reached
  from a loaded page in which the view is agent-speaking, an assistant speech-update
  with status \<^verbatim>\<open>stopped\<close> applies no state: the view stays agent-speaking and a timer
  of 800 ms for the return to listening is armed and stored in
  \<^verbatim>\<open>agentSpeakingTimer\<close>. If the next event is the assistant's \<^verbatim>\<open>started\<close>, that
  timer is removed from the live timers (it can no longer fire), the handle is cleared,
  and the only state applied over the two events is agent-speaking: listening is not
  visited.
\<close>

theorem stopped_arms_debounce_started_cancels:
  assumes "w = run (boot store fresh) evs" and "ui w = AgentSpeaking"
  shows "(let h = next_timer w;
              w1 = step (Message stopped_msg) w;
              w2 = step (Message started_msg) w1
          in ui w1 = AgentSpeaking \<and> since w w1 = []
             \<and> agentSpeakingTimer w1 = Some h
             \<and> find (\<lambda>t. fst t = h) (timers w1) = Some (h, 800, DebounceListening)
             \<and> \<not> live h w2 \<and> agentSpeakingTimer w2 = None
             \<and> since w w2 = [Applied AgentSpeaking] \<and> ui w2 = AgentSpeaking
             \<and> step (TimerFire h) w2 = w2)"
proof -
  have wf: "wf w" using assms(1) by (simp add: wf_reachable)
  have "in_call w" using assms(1) by (simp add: in_call_reachable)
  then have act: "isCallActive w" using assms(2) by (simp add: in_call_def)
  define w1 where "w1 = step (Message stopped_msg) w"
  define w2 where "w2 = step (Message started_msg) w1"
  have l1: "log w1 = log w" and u1: "ui w1 = AgentSpeaking"
    and t1: "agentSpeakingTimer w1 = Some (next_timer w)"
    and ts1: "timers w1 = timers w @ [(next_timer w, 800, DebounceListening)]"
    and a1: "isCallActive w1"
    using act assms(2) by (simp_all add: w1_def on_message_fields for_assistant_simps)
  have f1: "find (\<lambda>t. fst t = next_timer w) (timers w1) = Some (next_timer w, 800, DebounceListening)"
    using wf by (simp add: ts1 find_fresh)
  have l2: "log w2 = log w @ [Applied AgentSpeaking]" and u2: "ui w2 = AgentSpeaking"
    and t2: "agentSpeakingTimer w2 = None"
    and ts2: "timers w2 = filter (\<lambda>t. fst t \<noteq> next_timer w) (timers w1)"
    using a1 t1 l1 by (simp_all add: w2_def on_message_fields for_assistant_simps)
  have dead: "\<not> live (next_timer w) w2"
    by (auto simp: live_def ts2)
  have "since w w1 = []" using l1 by (simp add: since_def)
  moreover have "since w w2 = [Applied AgentSpeaking]" using l2 by (simp add: since_append)
  moreover have "step (TimerFire (next_timer w)) w2 = w2" using dead by (simp add: fire_dead)
  ultimately show ?thesis
    using u1 t1 f1 dead t2 u2 unfolding w2_def w1_def Let_def by simp
qed

theorem stopped_arms_debounce_started_cancels_witness:
  "ui speaking = AgentSpeaking
   \<and> ui (run speaking [Message stopped_msg, Message started_msg]) = AgentSpeaking
   \<and> since speaking (run speaking [Message stopped_msg, Message started_msg]) = [Applied AgentSpeaking]
   \<and> timers (run speaking [Message stopped_msg]) = [(1, 800, DebounceListening)]
   \<and> timers (run speaking [Message stopped_msg, Message started_msg]) = []"
proof -
  have h1: "speaking = run (boot Map.empty ''u-0'') [MicClick ok_click, CallStart, Message started_msg]"
    by (simp add: speaking_def fresh_page_def)
  have h2: "ui speaking = AgentSpeaking"
    by (simp add: speaking_fields)
  note th = stopped_arms_debounce_started_cancels [OF h1 h2, unfolded Let_def]
  have a: "ui (run speaking [Message stopped_msg, Message started_msg]) = AgentSpeaking"
    using th [THEN conjunct2, THEN conjunct2, THEN conjunct2, THEN conjunct2, THEN conjunct2,
              THEN conjunct2, THEN conjunct2, THEN conjunct1]
    by simp
  have b: "since speaking (run speaking [Message stopped_msg, Message started_msg]) = [Applied AgentSpeaking]"
    using th [THEN conjunct2, THEN conjunct2, THEN conjunct2, THEN conjunct2, THEN conjunct2,
              THEN conjunct2, THEN conjunct1]
    by simp
  have c: "timers (run speaking [Message stopped_msg]) = [(1, 800, DebounceListening)]"
    "timers (run speaking [Message stopped_msg, Message started_msg]) = []"
    by (simp_all add: speaking_fields on_message_fields for_assistant_simps)
  show ?thesis using h2 a b c by simp
qed

text \<open>
  The claim does not hold for every controller of the repository nor for every event
  sequence. The earlier variant has no timer: on \<^verbatim>\<open>stopped\<close> it shows listening at
  once. In the variant with the timer, a second \<^verbatim>\<open>stopped\<close> before the
  \<^verbatim>\<open>started\<close> overwrites the stored handle without clearing the first timer, so the
  \<^verbatim>\<open>started\<close> cancels only the second one; the first stays live and, when it fires,
  shows listening while the agent is speaking.
\<close>

theorem stopped_not_always_debounced:
  "ui speaking = AgentSpeaking
   \<and> ui (on_message_basic stopped_msg speaking) = Listening
   \<and> timers (on_message_basic stopped_msg speaking) = []
   \<and> live 1 (run speaking [Message stopped_msg, Message stopped_msg, Message started_msg])
   \<and> ui (run speaking [Message stopped_msg, Message stopped_msg, Message started_msg, TimerFire 1]) = Listening"
  by (simp add: speaking_fields on_message_basic_def stopped_msg_def started_msg_def applyState_fields
        on_message_fields for_assistant_def fire_fields live_def)

subsection \<open>C2: text submitted while no call is active\<close>

text \<open>
  Claim C2, amended. In any world reached from a loaded page with no active call,
  submitting text that is not blank after trimming stores the trimmed text in
  \<^verbatim>\<open>pendingText\<close> and enters the start sequence (connecting is applied first) without
  querying the permission and without requesting the microphone. Whatever events
  follow, nothing is sent to the transport before a \<^verbatim>\<open>call-start\<close> arrives. The slot
  is single: a further submission before the \<^verbatim>\<open>call-start\<close> replaces the queued text.
  If there is none, the \<^verbatim>\<open>call-start\<close> handler applies listening, clears the slot and
  arms one timer of 600 ms that carries the text; the handler itself sends nothing.
  Whatever events come before that timer fires, when it fires the text is sent once if
  the call is active and the session reference is not null at that moment, and nothing
  is sent otherwise; the timer is gone afterwards, and firing it again does nothing.
  Over every run from a loaded page, the number of messages handed to the transport
  never exceeds the number of non-blank submissions, so no submitted text is sent
  twice.
\<close>

theorem queued_text_flushed_at_most_once:
  assumes "w = run (boot store fresh) evs" and "\<not> isCallActive w" and "trim raw \<noteq> []"
    and "CallStart \<notin> set es" and "\<forall>e\<in>set es. \<not> is_text e"
  shows "(let w1 = step (TextSend raw env) w;
              w2 = run w1 es;
              h = next_timer w2;
              w3 = step CallStart w2;
              w4 = run w3 es';
              w5 = step (TimerFire h) w4
          in pendingText w1 = Some (trim raw)
             \<and> PermissionQuery \<notin> set (since w w1) \<and> GetUserMedia \<notin> set (since w w1)
             \<and> hd (since w w1) = Applied Connecting
             \<and> filter is_send (since w w2) = []
             \<and> (trim raw' \<noteq> [] \<longrightarrow> pendingText (step (TextSend raw' env') w2) = Some (trim raw'))
             \<and> since w2 w3 = [Applied Listening] \<and> pendingText w3 = None
             \<and> find (\<lambda>x. fst x = h) (timers w3) = Some (h, 600, FlushText (trim raw))
             \<and> (TimerFire h \<notin> set es' \<longrightarrow>
                  since w4 w5 =
                    (case vapi w4 of None \<Rightarrow> []
                     | Some v \<Rightarrow> if isCallActive w4 then [VapiSend v (trim raw)] else [])
                  \<and> \<not> live h w5 \<and> step (TimerFire h) w5 = w5))
     \<and> length (filter is_send (log (run (boot store fresh) every))) \<le> length (filter is_submit every)"
proof -
  define w1 where "w1 = step (TextSend raw env) w"
  define w2 where "w2 = run w1 es"
  define w3 where "w3 = step CallStart w2"
  define w4 where "w4 = run w3 es'"
  have p1: "pendingText w1 = Some (trim raw)"
    using assms(2,3) by (simp add: w1_def handleTextSend_fields)
  have s1: "since w w1 = since w (startCall env w)"
    using assms(2,3) by (simp add: w1_def handleTextSend_since)
  have e1: "PermissionQuery \<notin> set (since w w1)" "GetUserMedia \<notin> set (since w w1)"
      "hd (since w w1) = Applied Connecting"
    by (simp_all add: s1 startCall_since)
  have "filter is_send (since w (run w (TextSend raw env # es))) = []"
    using assms(2,4) by (intro no_send_inactive_run) simp_all
  then have q: "filter is_send (since w w2) = []"
    by (simp add: w2_def w1_def)
  have "\<not> isCallActive (run w (TextSend raw env # es))"
    using assms(2,4) by (intro inactive_run) simp_all
  then have idle2: "\<not> isCallActive w2"
    by (simp add: w2_def w1_def)
  have over: "trim raw' \<noteq> [] \<longrightarrow> pendingText (step (TextSend raw' env') w2) = Some (trim raw')"
    using idle2 by (simp add: handleTextSend_fields)
  have p2: "pendingText w2 = Some (trim raw)"
    using assms(4,5) p1 by (simp add: w2_def pending_run)
  have "w2 = run (boot store fresh) (evs @ TextSend raw env # es)"
    by (simp add: w2_def w1_def assms(1) run_append)
  then have wf2: "wf w2" by (simp add: wf_reachable)
  note fl = flush_after_start [OF wf2 p2 assms(3), folded w3_def]
  have armed: "pending_flush (next_timer w2) (trim raw) w3"
    unfolding w3_def using wf2 p2 assms(3) by (rule pending_flush_start)
  have later: "TimerFire (next_timer w2) \<notin> set es' \<longrightarrow>
          since w4 (step (TimerFire (next_timer w2)) w4) =
            (case vapi w4 of None \<Rightarrow> []
             | Some v \<Rightarrow> if isCallActive w4 then [VapiSend v (trim raw)] else [])
          \<and> \<not> live (next_timer w2) (step (TimerFire (next_timer w2)) w4)
          \<and> step (TimerFire (next_timer w2)) (step (TimerFire (next_timer w2)) w4)
                = step (TimerFire (next_timer w2)) w4"
  proof
    assume "TimerFire (next_timer w2) \<notin> set es'"
    then have k: "pending_flush (next_timer w2) (trim raw) w4"
      unfolding w4_def using armed by (intro pending_flush_run)
    note f = pending_flush_fire [OF k]
    show "since w4 (step (TimerFire (next_timer w2)) w4) =
            (case vapi w4 of None \<Rightarrow> []
             | Some v \<Rightarrow> if isCallActive w4 then [VapiSend v (trim raw)] else [])
          \<and> \<not> live (next_timer w2) (step (TimerFire (next_timer w2)) w4)
          \<and> step (TimerFire (next_timer w2)) (step (TimerFire (next_timer w2)) w4)
                = step (TimerFire (next_timer w2)) w4"
      using f by (simp add: fire_dead)
  qed
  have "length (filter is_send (log (run (boot store fresh) every))) \<le> length (filter is_submit every)"
    by (rule sends_le_submits)
  then show ?thesis
    using p1 e1 q over fl(1,2,3) later unfolding w4_def w3_def w2_def w1_def Let_def by simp
qed

theorem queued_text_flushed_at_most_once_witness:
  "\<not> isCallActive denied_page \<and> trim padded_hi = hi \<and> hi \<noteq> []
   \<and> accepted fresh_page
        [MicClick denied_click, TextSend padded_hi ok_start, CallStart, SpeechStart, TimerFire 1]
   \<and> pendingText (run denied_page [TextSend padded_hi ok_start]) = Some hi
   \<and> filter is_send (log (run denied_page [TextSend padded_hi ok_start, CallStart])) = []
   \<and> filter is_send (log (run denied_page [TextSend padded_hi ok_start, CallStart, TimerFire 1]))
        = [VapiSend 0 hi]
   \<and> \<not> live 1 (run denied_page [TextSend padded_hi ok_start, CallStart, SpeechStart, TimerFire 1])
   \<and> trim [0x00A0] = [] \<and> step (TextSend [0x00A0] ok_start) denied_page = denied_page"
proof -
  have blank: "trim [0x00A0] = []" "step (TextSend [0x00A0] ok_start) denied_page = denied_page"
    by (simp_all add: trim_hi handleTextSend_def)
  have h1: "denied_page = run (boot Map.empty ''u-0'') [MicClick denied_click]"
    by (simp add: denied_page_def fresh_page_def)
  have h2: "\<not> isCallActive denied_page"
    by (simp add: denied_page_fields)
  have h3: "trim padded_hi \<noteq> []"
    by (simp add: trim_hi)
  have h4: "CallStart \<notin> set []" and h5: "\<forall>e\<in>set []. \<not> is_text e"
    by simp_all
  have h6: "TimerFire (next_timer (run (step (TextSend padded_hi ok_start) denied_page) []))
              \<notin> set [SpeechStart]"
    by simp
  note th = queued_text_flushed_at_most_once
              [OF h1 h2 h3 h4 h5, where env = ok_start and es' = "[SpeechStart]", unfolded Let_def]
  note fired = th [THEN conjunct1, THEN conjunct2, THEN conjunct2, THEN conjunct2, THEN conjunct2,
                   THEN conjunct2, THEN conjunct2, THEN conjunct2, THEN conjunct2, THEN conjunct2,
                   THEN mp, OF h6, THEN conjunct2, THEN conjunct1]
  have "pendingText (step (TextSend padded_hi ok_start) denied_page) = Some (trim padded_hi)"
    by (rule th [THEN conjunct1, THEN conjunct1])
  then have p: "pendingText (run denied_page [TextSend padded_hi ok_start]) = Some hi"
    by (simp add: trim_hi)
  have "accepted denied_page [TextSend padded_hi ok_start, CallStart, SpeechStart, TimerFire 1]"
    by (simp add: denied_page_fields trim_hi env_fields eval_simps view_defs)
  then have acc: "accepted fresh_page
        [MicClick denied_click, TextSend padded_hi ok_start, CallStart, SpeechStart, TimerFire 1]"
    by (simp only: from_denied_page)
  have "filter is_send (log (run denied_page [TextSend padded_hi ok_start, CallStart])) = []"
    "filter is_send (log (run denied_page [TextSend padded_hi ok_start, CallStart, TimerFire 1]))
        = [VapiSend 0 hi]"
    by (simp_all add: denied_page_fields trim_hi env_fields eval_simps)
  moreover have "\<not> live 1 (run denied_page [TextSend padded_hi ok_start, CallStart, SpeechStart, TimerFire 1])"
    using fired by (simp add: denied_page_fields handleTextSend_fields)
  ultimately show ?thesis using h2 p acc blank by (simp add: trim_hi)
qed

text \<open>
  "Exactly once" does not hold for every run. On the page where the microphone was
  denied, text is submitted and the call starts; when the call ends during the settle
  delay, the timer finds no active call and sends nothing. Afterwards no timer is live
  and the slot is empty, so the text is never sent.
\<close>

theorem queued_text_never_sent:
  "accepted fresh_page [MicClick denied_click, TextSend hi ok_start, CallStart, CallEnd, TimerFire 1]
   \<and> \<not> isCallActive denied_page
   \<and> pendingText (run denied_page [TextSend hi ok_start]) = Some hi
   \<and> filter is_send (log (run denied_page [TextSend hi ok_start, CallStart, CallEnd, TimerFire 1])) = []
   \<and> timers (run denied_page [TextSend hi ok_start, CallStart, CallEnd, TimerFire 1]) = []
   \<and> pendingText (run denied_page [TextSend hi ok_start, CallStart, CallEnd, TimerFire 1]) = None"
proof -
  have "accepted denied_page [TextSend hi ok_start, CallStart, CallEnd, TimerFire 1]"
    by (simp add: denied_page_fields trim_hi env_fields eval_simps view_defs)
  then have "accepted fresh_page
      [MicClick denied_click, TextSend hi ok_start, CallStart, CallEnd, TimerFire 1]"
    by (simp only: from_denied_page)
  then show ?thesis
    by (simp add: denied_page_fields trim_hi env_fields eval_simps)
qed

subsection \<open>C3: the debounce timer when a call terminates\<close>

text \<open>
  Claim C3 fails on the \<^verbatim>\<open>error\<close> path. From a page in a call with the agent
  speaking, a \<^verbatim>\<open>stopped\<close> update followed by a transport error leaves
  \<^verbatim>\<open>agentSpeakingTimer\<close> set and the timer live. If a new call becomes active and the
  user starts to speak before the old timer fires, the old timer replaces the
  user-speaking view by listening. The \<^verbatim>\<open>call-end\<close> handler, on the same input,
  clears both the handle and the timer.
\<close>

theorem error_leaves_debounce_timer_live:
  "agentSpeakingTimer (run speaking [Message stopped_msg, VapiError]) = Some 1
   \<and> timers (run speaking [Message stopped_msg, VapiError]) = [(1, 800, DebounceListening)]
   \<and> ui (run speaking [Message stopped_msg, VapiError, MicClick ok_click, CallStart, SpeechStart]) = UserSpeaking
   \<and> ui (run speaking [Message stopped_msg, VapiError, MicClick ok_click, CallStart, SpeechStart, TimerFire 1]) = Listening
   \<and> agentSpeakingTimer (run speaking [Message stopped_msg, CallEnd]) = None
   \<and> timers (run speaking [Message stopped_msg, CallEnd]) = []"
  by (simp add: speaking_fields stopped_msg_def on_message_fields for_assistant_def fire_fields
        on_error_fields on_call_end_fields on_call_start_fields on_speech_start_fields
        handleMicClick_fields)

subsection \<open>C4: the start control while a call is active\<close>

text \<open>
  Claim C4, amended. While \<^verbatim>\<open>isCallActive\<close> is set, a click on the microphone is
  exactly \<^verbatim>\<open>stopCall\<close>: its only effect is a stop request to the session that is held
  (none if the reference is null); it does not enter the start sequence, constructs no
  session and leaves the reference as it is. A text submission in such a world does
  not enter the start sequence either. This entry test is all the controller does: a
  start sequence that has passed it, and the events of earlier sessions, are not
  covered, and the statement that at most one session is live is not made.
\<close>

theorem mic_click_while_active_only_stops:
  "isCallActive w \<longrightarrow>
     handleMicClick env w = stopCall w
     \<and> since w (handleMicClick env w) = (case vapi w of None \<Rightarrow> [] | Some v \<Rightarrow> [VapiStop v])
     \<and> Applied Connecting \<notin> set (since w (handleMicClick env w))
     \<and> (\<forall>n. NewVapi n \<notin> set (since w (handleMicClick env w)))
     \<and> vapi (handleMicClick env w) = vapi w
     \<and> vapi_count (handleMicClick env w) = vapi_count w
     \<and> Applied Connecting \<notin> set (since w (handleTextSend raw tenv w))
     \<and> (\<forall>n. NewVapi n \<notin> set (since w (handleTextSend raw tenv w)))
     \<and> vapi (handleTextSend raw tenv w) = vapi w
     \<and> vapi_count (handleTextSend raw tenv w) = vapi_count w"
proof
  assume act: "isCallActive w"
  have a: "handleMicClick env w = stopCall w"
    using act by (simp add: handleMicClick_def)
  have b: "since w (handleMicClick env w) = (case vapi w of None \<Rightarrow> [] | Some v \<Rightarrow> [VapiStop v])"
    using act by (simp add: handleMicClick_since)
  have c: "Applied Connecting \<notin> set (since w (handleMicClick env w))"
      "\<forall>n. NewVapi n \<notin> set (since w (handleMicClick env w))"
    using act by (simp_all add: handleMicClick_since split: option.splits)
  have d: "vapi (handleMicClick env w) = vapi w" "vapi_count (handleMicClick env w) = vapi_count w"
    using act by (simp_all add: handleMicClick_vapi)
  have e: "Applied Connecting \<notin> set (since w (handleTextSend raw tenv w))"
      "\<forall>n. NewVapi n \<notin> set (since w (handleTextSend raw tenv w))"
    using act by (simp_all add: handleTextSend_since split: option.splits)
  have f: "vapi (handleTextSend raw tenv w) = vapi w"
      "vapi_count (handleTextSend raw tenv w) = vapi_count w"
    using act by (simp_all add: handleTextSend_vapi)
  from a b c d e f
  show "handleMicClick env w = stopCall w
     \<and> since w (handleMicClick env w) = (case vapi w of None \<Rightarrow> [] | Some v \<Rightarrow> [VapiStop v])
     \<and> Applied Connecting \<notin> set (since w (handleMicClick env w))
     \<and> (\<forall>n. NewVapi n \<notin> set (since w (handleMicClick env w)))
     \<and> vapi (handleMicClick env w) = vapi w
     \<and> vapi_count (handleMicClick env w) = vapi_count w
     \<and> Applied Connecting \<notin> set (since w (handleTextSend raw tenv w))
     \<and> (\<forall>n. NewVapi n \<notin> set (since w (handleTextSend raw tenv w)))
     \<and> vapi (handleTextSend raw tenv w) = vapi w
     \<and> vapi_count (handleTextSend raw tenv w) = vapi_count w"
    by blast
qed

theorem mic_click_while_active_only_stops_witness:
  "isCallActive in_listening
   \<and> handleMicClick ok_click in_listening = stopCall in_listening
   \<and> since in_listening (handleMicClick ok_click in_listening) = [VapiStop 0]
   \<and> vapi (handleMicClick ok_click in_listening) = Some 0
   \<and> vapi_count (handleTextSend hi ok_start in_listening) = 1
   \<and> since in_listening (handleTextSend hi ok_start in_listening) = [VapiSend 0 hi]"
proof -
  have h: "isCallActive in_listening" by (simp add: in_listening_fields)
  note th = mic_click_while_active_only_stops
              [where w = in_listening and env = ok_click and raw = hi and tenv = ok_start,
               THEN mp, OF h]
  have a: "handleMicClick ok_click in_listening = stopCall in_listening"
    by (rule th [THEN conjunct1])
  have "since in_listening (handleMicClick ok_click in_listening) =
          (case vapi in_listening of None \<Rightarrow> [] | Some v \<Rightarrow> [VapiStop v])"
    by (rule th [THEN conjunct2, THEN conjunct1])
  then have b: "since in_listening (handleMicClick ok_click in_listening) = [VapiStop 0]"
    by (simp add: in_listening_fields)
  have "vapi (handleMicClick ok_click in_listening) = vapi in_listening"
    by (rule th [THEN conjunct2, THEN conjunct2, THEN conjunct2, THEN conjunct2, THEN conjunct1])
  then have c: "vapi (handleMicClick ok_click in_listening) = Some 0"
    by (simp add: in_listening_fields)
  have d: "vapi_count (handleTextSend hi ok_start in_listening) = 1"
    "since in_listening (handleTextSend hi ok_start in_listening) = [VapiSend 0 hi]"
    using h by (simp_all add: in_listening_fields handleTextSend_session handleTextSend_since trim_hi)
  show ?thesis using h a b c d by simp
qed

text \<open>
  The second half of the claim, that at most one session is live at every point of
  every event sequence, does not hold. Session 0 starts and reports an error; the user
  clicks again and session 1 is started; the \<^verbatim>\<open>call-end\<close> of session 0 arrives late
  and its handler clears the shared reference and shows call-ended; the user clicks
  once more and session 2 is started. Every click is made on an enabled button and
  passes the test of \<^verbatim>\<open>isCallActive\<close>, no stop request is ever issued, and at the end
  the sessions 1 and 2 are both live.
\<close>

theorem two_sessions_live_at_once:
  "accepted fresh_page
     [MicClick ok_click, CallStart, VapiError, MicClick ok_click, CallEnd, MicClick ok_click]
   \<and> live_sessions fresh_page []
        [(None, MicClick ok_click), (Some 0, CallStart), (Some 0, VapiError),
         (None, MicClick ok_click), (Some 0, CallEnd), (None, MicClick ok_click)] = [1, 2]
   \<and> \<not> isCallActive
         (run fresh_page [MicClick ok_click, CallStart, VapiError, MicClick ok_click, CallEnd])
   \<and> filter is_control
        (log (run fresh_page
           [MicClick ok_click, CallStart, VapiError, MicClick ok_click, CallEnd, MicClick ok_click]))
       = [NewVapi 0, VapiStart 0 ''u-0'' (Some ''tok''), NewVapi 1, VapiStart 1 ''u-0'' (Some ''tok''),
          NewVapi 2, VapiStart 2 ''u-0'' (Some ''tok'')]"
  by (simp add: fresh_page_fields env_fields eval_simps view_defs opened_def event_since
        handleMicClick_since store_fields)

subsection \<open>C5: failures of the start sequence\<close>

text \<open>
  Claim C5. \<^verbatim>\<open>startCall\<close> ends in call-error exactly when constructing or starting the
  transport session fails, and then the session reference is null and the call is
  marked inactive. When both succeed the view is connecting and call-error is not
  applied, whatever the pre-registration request did. A click on the microphone or a
  text submission applies call-error only if opening the session failed; a denied or
  refused permission does not.
\<close>

theorem open_failure_is_call_error:
  "(\<not> (ctor_ok env \<and> start_ok env) \<longrightarrow>
      ui (startCall env w) = CallError \<and> vapi (startCall env w) = None
      \<and> \<not> isCallActive (startCall env w))
   \<and> (ctor_ok env \<and> start_ok env \<longrightarrow>
      ui (startCall env w) = Connecting \<and> Applied CallError \<notin> set (since w (startCall env w)))
   \<and> (Applied CallError \<in> set (since w (handleMicClick cenv w)) \<longrightarrow>
        \<not> (ctor_ok (senv cenv) \<and> start_ok (senv cenv)))
   \<and> (Applied CallError \<in> set (since w (handleTextSend raw env w)) \<longrightarrow>
        \<not> (ctor_ok env \<and> start_ok env))"
  by (cases "getMicPermissionState (query cenv)")
     (auto simp: handleMicClick_since handleTextSend_since startCall_since startCall_fields
        split: option.splits if_splits)

theorem open_failure_is_call_error_witness:
  "\<not> (ctor_ok bad_start \<and> start_ok bad_start)
   \<and> ui (startCall bad_start fresh_page) = CallError \<and> vapi (startCall bad_start fresh_page) = None
   \<and> \<not> isCallActive (startCall bad_start fresh_page)
   \<and> ctor_ok ok_start \<and> start_ok ok_start \<and> ui (startCall ok_start fresh_page) = Connecting
   \<and> Applied CallError \<in> set (since fresh_page (handleTextSend hi bad_start fresh_page))
   \<and> Applied CallError \<in> set (since fresh_page (handleMicClick (ok_click\<lparr>senv := bad_start\<rparr>) fresh_page))"
proof -
  have b: "\<not> (ctor_ok bad_start \<and> start_ok bad_start)" and g: "ctor_ok ok_start \<and> start_ok ok_start"
    by (simp_all add: env_fields)
  have "ui (startCall bad_start fresh_page) = CallError \<and> vapi (startCall bad_start fresh_page) = None
          \<and> \<not> isCallActive (startCall bad_start fresh_page)"
    using open_failure_is_call_error [where env = bad_start and w = fresh_page, THEN conjunct1] b by blast
  moreover have "ui (startCall ok_start fresh_page) = Connecting"
    using open_failure_is_call_error [where env = ok_start and w = fresh_page, THEN conjunct2, THEN conjunct1] g by blast
  moreover have "Applied CallError \<in> set (since fresh_page (handleTextSend hi bad_start fresh_page))"
    "Applied CallError \<in> set (since fresh_page (handleMicClick (ok_click\<lparr>senv := bad_start\<rparr>) fresh_page))"
    by (simp_all add: fresh_page_fields env_fields ok_click_def trim_hi
          handleTextSend_since handleMicClick_since startCall_since getMicPermissionState_def)
  ultimately show ?thesis using b g by simp
qed

subsection \<open>C6: failure of the pre-registration\<close>

text \<open>
  Claim C6. When the pre-registration request fails, \<^verbatim>\<open>startCall\<close> logs a warning
  and goes on: if the session object can be constructed it is started with the user
  identity and with no token, no start carries a token, and the view becomes call-error
  only if constructing or starting the session fails.
\<close>

theorem preregistration_failure_swallowed:
  assumes "fetch env = FetchThrows"
  shows "Warn \<in> set (since w (startCall env w))
     \<and> (\<forall>v u t. VapiStart v u (Some t) \<notin> set (since w (startCall env w)))
     \<and> (ctor_ok env \<longrightarrow>
          VapiStart (vapi_count w) (userId_of (uuid env) w) None \<in> set (since w (startCall env w)))
     \<and> (ui (startCall env w) = CallError \<longleftrightarrow> \<not> (ctor_ok env \<and> start_ok env))
     \<and> (ctor_ok env \<and> start_ok env \<longrightarrow>
          ui (startCall env w) = Connecting \<and> vapi (startCall env w) = Some (vapi_count w)
          \<and> Applied CallError \<notin> set (since w (startCall env w)))"
  using assms by (auto simp: startCall_since startCall_fields)

theorem preregistration_failure_swallowed_witness:
  "fetch bad_start = FetchThrows
   \<and> since fresh_page (startCall (bad_start\<lparr>start_ok := True\<rparr>) fresh_page)
       = [Applied Connecting, Fetch ''u-0'', Warn, NewVapi 0, VapiStart 0 ''u-0'' None]
   \<and> ui (startCall (bad_start\<lparr>start_ok := True\<rparr>) fresh_page) = Connecting"
proof -
  have h: "fetch (bad_start\<lparr>start_ok := True\<rparr>) = FetchThrows"
    by (simp add: bad_start_def)
  have g: "ctor_ok (bad_start\<lparr>start_ok := True\<rparr>) \<and> start_ok (bad_start\<lparr>start_ok := True\<rparr>)"
    by (simp add: bad_start_def)
  have "ui (startCall (bad_start\<lparr>start_ok := True\<rparr>) fresh_page) = Connecting"
    using preregistration_failure_swallowed [OF h, where w = fresh_page] g by blast
  moreover have "since fresh_page (startCall (bad_start\<lparr>start_ok := True\<rparr>) fresh_page)
       = [Applied Connecting, Fetch ''u-0'', Warn, NewVapi 0, VapiStart 0 ''u-0'' None]"
    by (simp add: startCall_since fresh_page_fields bad_start_def userId_of_def getOrCreateUserId_def)
  ultimately show ?thesis by (simp add: env_fields)
qed

subsection \<open>C7: the microphone permission\<close>

text \<open>
  Claim C7. On a click with no active call: if the permission state is denied, the
  microphone is not requested and the view is mic-denied; and the microphone is
  requested exactly when the permission state is prompt (which is also the state
  assumed when the query itself throws).
\<close>

theorem denied_never_requests_access:
  assumes "\<not> isCallActive w"
  shows "(getMicPermissionState (query env) = Denied \<longrightarrow>
       GetUserMedia \<notin> set (since w (handleMicClick env w)) \<and> ui (handleMicClick env w) = MicDenied)
     \<and> (GetUserMedia \<in> set (since w (handleMicClick env w))
          \<longleftrightarrow> getMicPermissionState (query env) = Prompt)"
  using assms
  by (cases "getMicPermissionState (query env)")
     (simp_all add: handleMicClick_since handleMicClick_ui startCall_since)

theorem denied_never_requests_access_witness:
  "\<not> isCallActive fresh_page
   \<and> getMicPermissionState (query (ok_click\<lparr>query := QueryState Denied\<rparr>)) = Denied
   \<and> since fresh_page (handleMicClick (ok_click\<lparr>query := QueryState Denied\<rparr>) fresh_page)
        = [Applied RequestingMic, PermissionQuery, Applied MicDenied]
   \<and> ui (handleMicClick (ok_click\<lparr>query := QueryState Denied\<rparr>) fresh_page) = MicDenied
   \<and> getMicPermissionState (query (ok_click\<lparr>query := QueryThrows\<rparr>)) = Prompt
   \<and> GetUserMedia \<in> set (since fresh_page (handleMicClick (ok_click\<lparr>query := QueryThrows\<rparr>) fresh_page))"
proof -
  have h: "\<not> isCallActive fresh_page" by (simp add: fresh_page_fields)
  have d: "getMicPermissionState (query (ok_click\<lparr>query := QueryState Denied\<rparr>)) = Denied"
    and p: "getMicPermissionState (query (ok_click\<lparr>query := QueryThrows\<rparr>)) = Prompt"
    by (simp_all add: getMicPermissionState_def)
  have "ui (handleMicClick (ok_click\<lparr>query := QueryState Denied\<rparr>) fresh_page) = MicDenied"
    using denied_never_requests_access [OF h, where env = "ok_click\<lparr>query := QueryState Denied\<rparr>"] d by blast
  moreover have "GetUserMedia \<in> set (since fresh_page (handleMicClick (ok_click\<lparr>query := QueryThrows\<rparr>) fresh_page))"
    using denied_never_requests_access [OF h, where env = "ok_click\<lparr>query := QueryThrows\<rparr>"] p by blast
  moreover have "since fresh_page (handleMicClick (ok_click\<lparr>query := QueryState Denied\<rparr>) fresh_page)
        = [Applied RequestingMic, PermissionQuery, Applied MicDenied]"
    using h by (simp add: handleMicClick_since getMicPermissionState_def)
  ultimately show ?thesis using h d p by simp
qed

subsection \<open>C8: the stored identity\<close>

text \<open>
  Claim C8. Let the random generator return a non-empty string (a UUID is 36
  characters). After \<^verbatim>\<open>getOrCreateUserId\<close> has returned \<open>u\<close>, the store holds \<open>u\<close>
  under the fixed key; if nothing usable was stored before, \<open>u\<close> is the generated
  string and the generator was called once. In every world whose store holds \<open>u\<close>
  under that key (the same page later, or a page loaded later from the same store), a
  call returns \<open>u\<close> and changes nothing: it neither generates nor writes. That the
  generated string is a random version-4 UUID is a property of the browser's
  \<^verbatim>\<open>crypto.randomUUID\<close>, which is a parameter here.
\<close>

theorem getOrCreateUserId_idempotent:
  assumes "fresh \<noteq> []" and "getOrCreateUserId fresh w = (u, w1)"
  shows "localStorage w1 ''calendarUserId'' = Some u
     \<and> (\<not> truthy (localStorage w ''calendarUserId'') \<longrightarrow> u = fresh \<and> since w w1 = [RandomUUID])
     \<and> (\<forall>w2 f2. localStorage w2 ''calendarUserId'' = Some u \<longrightarrow> getOrCreateUserId f2 w2 = (u, w2))"
  using assms
  by (cases "localStorage w ''calendarUserId''")
     (auto simp: getOrCreateUserId_def since_def emit_def split: if_splits)

theorem getOrCreateUserId_idempotent_witness:
  "''u-1'' \<noteq> [] \<and> \<not> truthy (localStorage first_visit ''calendarUserId'')
   \<and> fst (getOrCreateUserId ''u-1'' first_visit) = ''u-1''
   \<and> localStorage (snd (getOrCreateUserId ''u-1'' first_visit)) ''calendarUserId'' = Some ''u-1''
   \<and> getOrCreateUserId ''u-2'' (snd (getOrCreateUserId ''u-1'' first_visit))
        = (''u-1'', snd (getOrCreateUserId ''u-1'' first_visit))
   \<and> fst (getOrCreateUserId ''u-3''
             (boot (localStorage (snd (getOrCreateUserId ''u-1'' first_visit))) ''u-4'')) = ''u-1''"
proof -
  have h1: "''u-1'' \<noteq> []" by simp
  have h2: "getOrCreateUserId ''u-1'' first_visit
              = (fst (getOrCreateUserId ''u-1'' first_visit), snd (getOrCreateUserId ''u-1'' first_visit))"
    by simp
  have e: "\<not> truthy (localStorage first_visit ''calendarUserId'')"
    by (simp add: first_visit_def)
  note th = getOrCreateUserId_idempotent [OF h1 h2]
  have a: "localStorage (snd (getOrCreateUserId ''u-1'' first_visit)) ''calendarUserId''
             = Some (fst (getOrCreateUserId ''u-1'' first_visit))"
    by (rule th [THEN conjunct1])
  have b: "fst (getOrCreateUserId ''u-1'' first_visit) = ''u-1''"
    using th [THEN conjunct2, THEN conjunct1] e by blast
  have c: "\<And>w2 f2. localStorage w2 ''calendarUserId'' = Some (fst (getOrCreateUserId ''u-1'' first_visit))
             \<Longrightarrow> getOrCreateUserId f2 w2 = (fst (getOrCreateUserId ''u-1'' first_visit), w2)"
    using th [THEN conjunct2, THEN conjunct2] by blast
  have d: "getOrCreateUserId ''u-2'' (snd (getOrCreateUserId ''u-1'' first_visit))
        = (''u-1'', snd (getOrCreateUserId ''u-1'' first_visit))"
    using c [OF a] b by simp
  have "localStorage (boot (localStorage (snd (getOrCreateUserId ''u-1'' first_visit))) ''u-4'')
          ''calendarUserId'' = Some (fst (getOrCreateUserId ''u-1'' first_visit))"
    using a b by (simp add: boot_store)
  then have f: "fst (getOrCreateUserId ''u-3''
             (boot (localStorage (snd (getOrCreateUserId ''u-1'' first_visit))) ''u-4'')) = ''u-1''"
    using c b by simp
  show ?thesis using h1 e a b d f by simp
qed

subsection \<open>C9: the pending text after a failed start\<close>

text \<open>
  Claim C9, amended. The \<^verbatim>\<open>error\<close> handler, the \<^verbatim>\<open>call-end\<close> handler and the
  failure branch of \<^verbatim>\<open>startCall\<close> leave \<^verbatim>\<open>pendingText\<close> as it is, and the only event
  that turns a filled slot into an empty one is \<^verbatim>\<open>call-start\<close>. So when text that is
  not blank is submitted with no active call and opening the session fails, the view is
  call-error with the text still queued, and it stays queued through any later events
  other than a \<^verbatim>\<open>call-start\<close> or a new submission. The next \<^verbatim>\<open>call-start\<close> clears
  the slot and arms the settle timer with the text. Whatever happens before that timer
  fires, when it fires the text is sent to the session held at that moment if the call
  is active then, and is dropped otherwise.
\<close>

theorem pending_text_survives_failed_start:
  assumes "w = run (boot store fresh) evs" and "\<not> isCallActive w" and "trim raw \<noteq> []"
    and "\<not> (ctor_ok env \<and> start_ok env)"
    and "CallStart \<notin> set es" and "\<forall>e\<in>set es. \<not> is_text e"
  shows "pendingText (on_error u) = pendingText u
     \<and> pendingText (on_call_end u) = pendingText u
     \<and> pendingText (start_failed u) = pendingText u
     \<and> (pendingText (step ev u) = None \<and> pendingText u \<noteq> None \<longrightarrow> ev = CallStart)
     \<and> (let w1 = step (TextSend raw env) w;
             w2 = run w1 es;
             h = next_timer w2;
             w3 = step CallStart w2;
             w4 = run w3 es';
             w5 = step (TimerFire h) w4
         in ui w1 = CallError \<and> vapi w1 = None \<and> pendingText w1 = Some (trim raw)
            \<and> pendingText w2 = Some (trim raw) \<and> pendingText w3 = None
            \<and> find (\<lambda>x. fst x = h) (timers w3) = Some (h, 600, FlushText (trim raw))
            \<and> (TimerFire h \<notin> set es' \<longrightarrow>
                 since w4 w5 =
                   (case vapi w4 of None \<Rightarrow> []
                    | Some v \<Rightarrow> if isCallActive w4 then [VapiSend v (trim raw)] else [])
                 \<and> pendingText w5 = pendingText w4 \<and> \<not> live h w5))"
proof -
  define w1 where "w1 = step (TextSend raw env) w"
  define w2 where "w2 = run w1 es"
  define w3 where "w3 = step CallStart w2"
  define w4 where "w4 = run w3 es'"
  have frame: "pendingText (on_error u) = pendingText u" "pendingText (on_call_end u) = pendingText u"
      "pendingText (start_failed u) = pendingText u"
    by (simp_all add: on_error_fields on_call_end_fields start_failed_fields)
  have only: "pendingText (step ev u) = None \<and> pendingText u \<noteq> None \<longrightarrow> ev = CallStart"
    by (cases ev) (auto simp: handler_fields split: if_splits)
  have p1: "pendingText w1 = Some (trim raw)" and u1: "ui w1 = CallError" and v1: "vapi w1 = None"
    using assms(2,3,4)
    by (auto simp: w1_def handleTextSend_fields handleTextSend_def Let_def startCall_fields)
  have p2: "pendingText w2 = Some (trim raw)"
    using assms(5,6) p1 by (simp add: w2_def pending_run)
  have "w2 = run (boot store fresh) (evs @ TextSend raw env # es)"
    by (simp add: w2_def w1_def assms(1) run_append)
  then have wf2: "wf w2" by (simp add: wf_reachable)
  note fl = flush_after_start [OF wf2 p2 assms(3), folded w3_def]
  have armed: "pending_flush (next_timer w2) (trim raw) w3"
    unfolding w3_def using wf2 p2 assms(3) by (rule pending_flush_start)
  have later: "TimerFire (next_timer w2) \<notin> set es' \<longrightarrow>
          since w4 (step (TimerFire (next_timer w2)) w4) =
            (case vapi w4 of None \<Rightarrow> []
             | Some v \<Rightarrow> if isCallActive w4 then [VapiSend v (trim raw)] else [])
          \<and> pendingText (step (TimerFire (next_timer w2)) w4) = pendingText w4
          \<and> \<not> live (next_timer w2) (step (TimerFire (next_timer w2)) w4)"
  proof
    assume "TimerFire (next_timer w2) \<notin> set es'"
    then have k: "pending_flush (next_timer w2) (trim raw) w4"
      unfolding w4_def using armed by (intro pending_flush_run)
    show "since w4 (step (TimerFire (next_timer w2)) w4) =
            (case vapi w4 of None \<Rightarrow> []
             | Some v \<Rightarrow> if isCallActive w4 then [VapiSend v (trim raw)] else [])
          \<and> pendingText (step (TimerFire (next_timer w2)) w4) = pendingText w4
          \<and> \<not> live (next_timer w2) (step (TimerFire (next_timer w2)) w4)"
      using pending_flush_fire [OF k] by (simp add: fire_fields)
  qed
  show ?thesis
    using frame only p1 u1 v1 p2 fl(2,3) later unfolding w4_def w3_def w2_def w1_def Let_def
    by simp
qed

theorem pending_text_survives_failed_start_witness:
  "\<not> isCallActive denied_page \<and> trim hi = hi \<and> hi \<noteq> []
   \<and> \<not> (ctor_ok bad_start \<and> start_ok bad_start)
   \<and> accepted fresh_page
        [MicClick denied_click, TextSend hi bad_start, MicClick ok_click, CallStart, SpeechStart,
         TimerFire 1]
   \<and> ui (run denied_page [TextSend hi bad_start]) = CallError
   \<and> pendingText (run denied_page [TextSend hi bad_start, MicClick ok_click]) = Some hi
   \<and> pendingText (run denied_page [TextSend hi bad_start, MicClick ok_click, CallStart]) = None
   \<and> filter is_send
        (log (run denied_page
           [TextSend hi bad_start, MicClick ok_click, CallStart, SpeechStart, TimerFire 1]))
        = [VapiSend 1 hi]"
proof -
  have h1: "denied_page = run (boot Map.empty ''u-0'') [MicClick denied_click]"
    by (simp add: denied_page_def fresh_page_def)
  have h2: "\<not> isCallActive denied_page" by (simp add: denied_page_fields)
  have h3: "trim hi \<noteq> []" by (simp add: trim_hi)
  have h4: "\<not> (ctor_ok bad_start \<and> start_ok bad_start)" by (simp add: env_fields)
  have h5: "CallStart \<notin> set [MicClick ok_click]" and h6: "\<forall>e\<in>set [MicClick ok_click]. \<not> is_text e"
    by simp_all
  note th = pending_text_survives_failed_start
              [OF h1 h2 h3 h4 h5 h6, where es' = "[SpeechStart]", unfolded Let_def,
               THEN conjunct2, THEN conjunct2, THEN conjunct2, THEN conjunct2]
  have a: "ui (run denied_page [TextSend hi bad_start]) = CallError"
    using th [THEN conjunct1] by simp
  have b: "pendingText (run denied_page [TextSend hi bad_start, MicClick ok_click]) = Some hi"
    using th [THEN conjunct2, THEN conjunct2, THEN conjunct2, THEN conjunct1] by (simp add: trim_hi)
  have c: "pendingText (run denied_page [TextSend hi bad_start, MicClick ok_click, CallStart]) = None"
    using th [THEN conjunct2, THEN conjunct2, THEN conjunct2, THEN conjunct2, THEN conjunct1] by simp
  have "accepted denied_page
          [TextSend hi bad_start, MicClick ok_click, CallStart, SpeechStart, TimerFire 1]"
    by (simp add: denied_page_fields trim_hi env_fields eval_simps view_defs)
  then have acc: "accepted fresh_page
        [MicClick denied_click, TextSend hi bad_start, MicClick ok_click, CallStart, SpeechStart,
         TimerFire 1]"
    by (simp only: from_denied_page)
  have d: "filter is_send
        (log (run denied_page
           [TextSend hi bad_start, MicClick ok_click, CallStart, SpeechStart, TimerFire 1]))
        = [VapiSend 1 hi]"
    by (simp add: denied_page_fields trim_hi env_fields eval_simps)
  show ?thesis using h2 h4 a b c d acc by (simp add: trim_hi)
qed

text \<open>
  The text of a failed start is not always flushed into the next session. The
  microphone is denied, text is submitted and opening the session fails; the user
  clicks, the next session reaches \<^verbatim>\<open>call-start\<close> and the timer is armed; the call ends
  before the timer fires. The timer then sends nothing, the slot is empty and no timer
  is left: the text is lost.
\<close>

theorem failed_start_text_lost:
  "accepted fresh_page
     [MicClick denied_click, TextSend hi bad_start, MicClick ok_click, CallStart, CallEnd, TimerFire 1]
   \<and> ui (run denied_page [TextSend hi bad_start]) = CallError
   \<and> pendingText (run denied_page [TextSend hi bad_start]) = Some hi
   \<and> timers (run denied_page [TextSend hi bad_start, MicClick ok_click, CallStart])
        = [(1, 600, FlushText hi)]
   \<and> filter is_send
        (log (run denied_page
           [TextSend hi bad_start, MicClick ok_click, CallStart, CallEnd, TimerFire 1])) = []
   \<and> pendingText
        (run denied_page [TextSend hi bad_start, MicClick ok_click, CallStart, CallEnd, TimerFire 1])
        = None
   \<and> timers
        (run denied_page [TextSend hi bad_start, MicClick ok_click, CallStart, CallEnd, TimerFire 1])
        = []"
proof -
  have "accepted denied_page
          [TextSend hi bad_start, MicClick ok_click, CallStart, CallEnd, TimerFire 1]"
    by (simp add: denied_page_fields trim_hi env_fields eval_simps view_defs)
  then have "accepted fresh_page
     [MicClick denied_click, TextSend hi bad_start, MicClick ok_click, CallStart, CallEnd, TimerFire 1]"
    by (simp only: from_denied_page)
  then show ?thesis
    by (simp add: denied_page_fields trim_hi env_fields eval_simps)
qed

subsection \<open>C10: sending without a session\<close>

text \<open>
  Claim C10, amended. \<^verbatim>\<open>sendTextToVapi\<close> changes nothing, and so sends nothing, when
  the session reference is null or the call is not active. When a queued text has been
  turned into a settle timer by \<^verbatim>\<open>call-start\<close>, then whatever happens before the
  timer fires, the timer sends the text to the session held at that moment if a call is
  active then, and sends nothing otherwise; it never writes \<^verbatim>\<open>pendingText\<close>, so a
  dropped text is not queued again, and the timer is gone afterwards. In particular
  nothing is sent when the call has ended or failed and no \<^verbatim>\<open>call-start\<close> has arrived
  since.
\<close>

theorem sendTextToVapi_noop_without_session:
  assumes "wf w" and "truthy (pendingText w)" and "TimerFire (next_timer w) \<notin> set es"
  shows "(vapi u = None \<or> \<not> isCallActive u \<longrightarrow> sendTextToVapi t u = u)
     \<and> (let h = next_timer w;
             w1 = step CallStart w;
             w2 = run w1 es;
             w3 = step (TimerFire h) w2
         in find (\<lambda>x. fst x = h) (timers w2) = Some (h, 600, FlushText (the (pendingText w)))
            \<and> since w2 w3 =
                 (case vapi w2 of None \<Rightarrow> []
                  | Some v \<Rightarrow> if isCallActive w2 then [VapiSend v (the (pendingText w))] else [])
            \<and> pendingText w3 = pendingText w2 \<and> \<not> live h w3
            \<and> (es = es1 @ ev # es2 \<and> (ev = CallEnd \<or> ev = VapiError) \<and> CallStart \<notin> set es2 \<longrightarrow>
                 since w2 w3 = []))"
proof -
  define w1 where "w1 = step CallStart w"
  define w2 where "w2 = run w1 es"
  define w3 where "w3 = step (TimerFire (next_timer w)) w2"
  obtain x where x: "pendingText w = Some x" and nx: "x \<noteq> []"
    using assms(2) by (cases "pendingText w") simp_all
  have a: "vapi u = None \<or> \<not> isCallActive u \<longrightarrow> sendTextToVapi t u = u"
    by (auto simp: sendTextToVapi_def split: option.splits)
  have "pending_flush (next_timer w) x w1"
    unfolding w1_def using assms(1) x nx by (rule pending_flush_start)
  then have k: "pending_flush (next_timer w) x w2"
    unfolding w2_def using assms(3) by (rule pending_flush_run)
  then have f: "find (\<lambda>y. fst y = next_timer w) (timers w2) = Some (next_timer w, 600, FlushText x)"
    by (simp add: pending_flush_def)
  have s: "since w2 w3 =
             (case vapi w2 of None \<Rightarrow> [] | Some v \<Rightarrow> if isCallActive w2 then [VapiSend v x] else [])"
    and d: "\<not> live (next_timer w) w3"
    unfolding w3_def using pending_flush_fire [OF k] by simp_all
  have p: "pendingText w3 = pendingText w2"
    by (simp add: w3_def fire_fields)
  have e: "es = es1 @ ev # es2 \<and> (ev = CallEnd \<or> ev = VapiError) \<and> CallStart \<notin> set es2 \<longrightarrow>
             since w2 w3 = []"
  proof
    assume h: "es = es1 @ ev # es2 \<and> (ev = CallEnd \<or> ev = VapiError) \<and> CallStart \<notin> set es2"
    then have "w2 = run (step ev (run w1 es1)) es2"
      by (simp add: w2_def run_append)
    moreover have "\<not> isCallActive (step ev (run w1 es1))"
      using h by (auto simp: on_call_end_fields on_error_fields)
    ultimately have "\<not> isCallActive w2"
      using h by (simp add: inactive_run)
    then show "since w2 w3 = []"
      using s by (simp split: option.splits)
  qed
  have tx: "the (pendingText w) = x"
    using x by simp
  show ?thesis
    using a f s p d e unfolding w3_def w2_def w1_def Let_def tx by simp
qed

theorem sendTextToVapi_noop_without_session_witness:
  "truthy (pendingText (run denied_page [TextSend hi ok_start]))
   \<and> sendTextToVapi hi denied_page = denied_page
   \<and> accepted fresh_page
        [MicClick denied_click, TextSend hi ok_start, CallStart, VapiError, TimerFire 1]
   \<and> since (run denied_page [TextSend hi ok_start, CallStart, VapiError])
           (run denied_page [TextSend hi ok_start, CallStart, VapiError, TimerFire 1]) = []
   \<and> pendingText (run denied_page [TextSend hi ok_start, CallStart, VapiError, TimerFire 1]) = None
   \<and> \<not> live 1 (run denied_page [TextSend hi ok_start, CallStart, VapiError, TimerFire 1])"
proof -
  define q where "q = run denied_page [TextSend hi ok_start]"
  have h1: "wf q"
    unfolding q_def denied_page_def fresh_page_def
    by (intro wf_run) (simp add: wf_def boot_fields)
  have qf: "pendingText q = Some hi" "next_timer q = 1"
    by (simp_all add: q_def denied_page_fields trim_hi eval_simps)
  have h2: "truthy (pendingText q)"
    by (simp add: qf trim_hi)
  have h3: "TimerFire (next_timer q) \<notin> set [VapiError]" by simp
  have h4: "[VapiError] = [] @ VapiError # [] \<and> (VapiError = CallEnd \<or> VapiError = VapiError)
              \<and> CallStart \<notin> set []"
    by simp
  note th = sendTextToVapi_noop_without_session
              [OF h1 h2 h3, where u = denied_page and t = hi and ?es1.0 = "[]" and ev = VapiError
                 and ?es2.0 = "[]", unfolded Let_def]
  have a: "sendTextToVapi hi denied_page = denied_page"
    using th [THEN conjunct1] by (simp add: denied_page_fields)
  note rest = th [THEN conjunct2, THEN conjunct2, THEN conjunct2]
  have b: "since (run q [CallStart, VapiError]) (run q [CallStart, VapiError, TimerFire 1]) = []"
    using rest [THEN conjunct2, THEN conjunct2, THEN mp, OF h4] by (simp add: qf)
  have c: "\<not> live 1 (run q [CallStart, VapiError, TimerFire 1])"
    using rest [THEN conjunct2, THEN conjunct1] by (simp add: qf)
  have d: "pendingText (run q [CallStart, VapiError, TimerFire 1]) = None"
    by (simp add: qf trim_hi eval_simps)
  have "accepted denied_page [TextSend hi ok_start, CallStart, VapiError, TimerFire 1]"
    by (simp add: denied_page_fields trim_hi env_fields eval_simps view_defs)
  then have acc: "accepted fresh_page
        [MicClick denied_click, TextSend hi ok_start, CallStart, VapiError, TimerFire 1]"
    by (simp only: from_denied_page)
  show ?thesis
    using h2 a b c d acc unfolding q_def by (simp add: trim_hi)
qed

text \<open>
  A flush whose session ended within the delay does send when another call has
  become active in the meantime. Text is submitted on the page where the microphone
  was denied; session 0 reaches \<^verbatim>\<open>call-start\<close> and ends at once; the user clicks and
  session 1 reaches \<^verbatim>\<open>call-start\<close>; then the timer armed for session 0 fires and the
  text goes to session 1.
\<close>

theorem stale_flush_reaches_next_session:
  "accepted fresh_page
     [MicClick denied_click, TextSend hi ok_start, CallStart, CallEnd, MicClick ok_click, CallStart,
      TimerFire 1]
   \<and> timers (run denied_page [TextSend hi ok_start, CallStart, CallEnd]) = [(1, 600, FlushText hi)]
   \<and> vapi (run denied_page [TextSend hi ok_start, CallStart, CallEnd]) = None
   \<and> filter is_send
        (log (run denied_page
           [TextSend hi ok_start, CallStart, CallEnd, MicClick ok_click, CallStart, TimerFire 1]))
        = [VapiSend 1 hi]"
proof -
  have "accepted denied_page
          [TextSend hi ok_start, CallStart, CallEnd, MicClick ok_click, CallStart, TimerFire 1]"
    by (simp add: denied_page_fields trim_hi env_fields eval_simps view_defs)
  then have "accepted fresh_page
     [MicClick denied_click, TextSend hi ok_start, CallStart, CallEnd, MicClick ok_click, CallStart,
      TimerFire 1]"
    by (simp only: from_denied_page)
  then show ?thesis
    by (simp add: denied_page_fields trim_hi env_fields eval_simps)
qed

end
